theory Spec2Isabelle
  imports Main
begin

section \<open>Repository insight tracker: the dataset manager of \<open>src/load.js\<close>\<close>

text \<open>
  The action reads a statistics file from a branch of a storage repository, inserts or
  replaces one record per calendar date, fills in the previous days when the file is
  short, and commits the new file. The theory follows \<open>load.js\<close> function by function.

  JavaScript strings are modelled as \<open>string\<close>, one \<open>char\<close> per code unit below 256.
  Exceptions are values of the type \<open>error\<close>; a function that can throw returns
  \<open>error + 'a\<close> with \<open>Inl\<close> the exception.
\<close>

subsection \<open>Exceptions\<close>

datatype error =
    HttpError nat                 \<comment> \<open>a rejected API request, with its \<open>status\<close>\<close>
  | SyntaxError                   \<comment> \<open>\<open>JSON.parse\<close> on a text that is not JSON\<close>
  | TypeError                     \<comment> \<open>a property read on \<open>null\<close> or \<open>undefined\<close>, a call of a non-function\<close>
  | UnsupportedFormat             \<comment> \<open>\<open>Error('Unsupported format. Please choose either "json" or "csv".')\<close>\<close>
  | UnableToGenerate error        \<comment> \<open>\<open>Error(`Unable to generate file content: ${error.message}`)\<close>\<close>
  | BranchCheckFailed error       \<comment> \<open>\<open>Error(`Error checking if branch exists: ${error.message}`)\<close>\<close>

subsection \<open>String operations of the runtime\<close>

abbreviation LF :: char where "LF \<equiv> CHR 0x0A"
abbreviation COMMA :: char where "COMMA \<equiv> CHR 0x2C"
abbreviation DQUOTE :: char where "DQUOTE \<equiv> CHR 0x22"
abbreviation BACKSLASH :: char where "BACKSLASH \<equiv> CHR 0x5C"

text \<open>\<open>s.split(sep)\<close> for a one-character separator: the empty string splits into one empty piece.\<close>

fun split :: "char \<Rightarrow> string \<Rightarrow> string list" where
  "split sep [] = [[]]"
| "split sep (c # cs) =
     (if c = sep then [] # split sep cs
      else (case split sep cs of [] \<Rightarrow> [[c]] | l # ls \<Rightarrow> (c # l) # ls))"

text \<open>\<open>pieces.join(sep)\<close>.\<close>

fun join :: "string \<Rightarrow> string list \<Rightarrow> string" where
  "join sep [] = []"
| "join sep [l] = l"
| "join sep (l # m # ls) = l @ sep @ join sep (m # ls)"

text \<open>The white space that \<open>trim\<close> removes, among the code units below 256.\<close>

definition isWhiteSpace :: "char \<Rightarrow> bool" where
  "isWhiteSpace c =
     (c = CHR 0x09 \<or> c = CHR 0x0A \<or> c = CHR 0x0B \<or> c = CHR 0x0C \<or> c = CHR 0x0D
      \<or> c = CHR 0x20 \<or> c = CHR 0xA0)"

definition trim :: "string \<Rightarrow> string" where
  "trim s = rev (dropWhile isWhiteSpace (rev (dropWhile isWhiteSpace s)))"

text \<open>\<open>line.startsWith(p)\<close>.\<close>

fun startsWith :: "string \<Rightarrow> string \<Rightarrow> bool" where
  "startsWith s [] = True"
| "startsWith [] (p # ps) = False"
| "startsWith (c # cs) (p # ps) = (c = p \<and> startsWith cs ps)"

text \<open>\<open>xs.findIndex(pred)\<close>: the first index whose element satisfies \<open>pred\<close>, or \<open>-1\<close>.\<close>

fun findIndex :: "('a \<Rightarrow> bool) \<Rightarrow> 'a list \<Rightarrow> int" where
  "findIndex pred [] = -1"
| "findIndex pred (x # xs) =
     (if pred x then 0 else (let i = findIndex pred xs in if i = -1 then -1 else i + 1))"

text \<open>The same with a callback that can throw: the exception leaves \<open>findIndex\<close> at once,
  and elements after the first hit are never visited.\<close>

fun findIndexE :: "('a \<Rightarrow> error + bool) \<Rightarrow> 'a list \<Rightarrow> error + int" where
  "findIndexE pred [] = Inr (-1)"
| "findIndexE pred (x # xs) =
     (case pred x of
        Inl e \<Rightarrow> Inl e
      | Inr True \<Rightarrow> Inr 0
      | Inr False \<Rightarrow>
          (case findIndexE pred xs of
             Inl e \<Rightarrow> Inl e
           | Inr i \<Rightarrow> Inr (if i = -1 then -1 else i + 1)))"

text \<open>\<open>String(n)\<close> for a non-negative integer and for an integer.\<close>

definition digitChar :: "nat \<Rightarrow> char" where
  "digitChar d = ''0123456789'' ! d"

fun natToString :: "nat \<Rightarrow> string" where
  "natToString n =
     (if n < 10 then [digitChar n] else natToString (n div 10) @ [digitChar (n mod 10)])"

definition intToString :: "int \<Rightarrow> string" where
  "intToString i = (if i < 0 then CHR ''-'' # natToString (nat (- i)) else natToString (nat i))"

subsection \<open>JSON values, \<open>JSON.stringify\<close> and \<open>JSON.parse\<close>\<close>

text \<open>
  A JSON value. Numbers are integers: every number this program writes is a count, and
  the program never computes with the numbers of a file; a number with a fraction or an
  exponent is outside the model and \<open>JSON_parse\<close> below rejects it. An object is the
  list of its members in the order of the text.
\<close>

datatype json =
    JNull
  | JBool bool
  | JNum int
  | JStr string
  | JArr "json list"
  | JObj "(string \<times> json) list"

text \<open>\<open>QuoteJSONString\<close>: the two-character escapes, \<open>\u00xx\<close> for the other control
  characters, every other character as it is.\<close>

definition hexChar :: "nat \<Rightarrow> char" where
  "hexChar d = ''0123456789abcdef'' ! d"

definition quoteChar :: "char \<Rightarrow> string" where
  "quoteChar c =
     (if c = DQUOTE then [BACKSLASH, DQUOTE]
      else if c = BACKSLASH then [BACKSLASH, BACKSLASH]
      else if c = CHR 0x08 then [BACKSLASH, CHR ''b'']
      else if c = CHR 0x0C then [BACKSLASH, CHR ''f'']
      else if c = CHR 0x0A then [BACKSLASH, CHR ''n'']
      else if c = CHR 0x0D then [BACKSLASH, CHR ''r'']
      else if c = CHR 0x09 then [BACKSLASH, CHR ''t'']
      else if (of_char c :: nat) < 32
        then [BACKSLASH, CHR ''u'', CHR ''0'', CHR ''0'',
              hexChar ((of_char c :: nat) div 16), hexChar ((of_char c :: nat) mod 16)]
      else [c])"

definition quoteJSONString :: "string \<Rightarrow> string" where
  "quoteJSONString s = DQUOTE # concat (map quoteChar s) @ [DQUOTE]"

text \<open>\<open>JSON.stringify(value, null, 2)\<close>, at the indentation \<open>ind\<close>: an empty array is
  \<open>[]\<close>, any other array has one element per line, two spaces deeper, and the closing
  bracket back at \<open>ind\<close>; objects alike, with \<open>"key": value\<close> members.\<close>

fun stringify :: "string \<Rightarrow> json \<Rightarrow> string" where
  "stringify ind JNull = ''null''"
| "stringify ind (JBool b) = (if b then ''true'' else ''false'')"
| "stringify ind (JNum n) = intToString n"
| "stringify ind (JStr s) = quoteJSONString s"
| "stringify ind (JArr vs) =
     (if vs = [] then ''[]''
      else CHR ''['' # LF # (ind @ ''  '')
           @ join (COMMA # LF # (ind @ ''  '')) (map (stringify (ind @ ''  '')) vs)
           @ LF # ind @ '']'')"
| "stringify ind (JObj ps) =
     (if ps = [] then ''{}''
      else CHR ''{'' # LF # (ind @ ''  '')
           @ join (COMMA # LF # (ind @ ''  ''))
               (map (\<lambda>p. quoteJSONString (fst p) @ '': '' @ stringify (ind @ ''  '') (snd p)) ps)
           @ LF # ind @ ''}'')"

definition JSON_stringify :: "json \<Rightarrow> string" where
  "JSON_stringify v = stringify [] v"

text \<open>\<open>JSON.parse\<close>. White space between tokens is space, tab, line feed, carriage return.\<close>

definition isJsonSpace :: "char \<Rightarrow> bool" where
  "isJsonSpace c = (c = CHR 0x20 \<or> c = CHR 0x09 \<or> c = CHR 0x0A \<or> c = CHR 0x0D)"

definition skipSpace :: "string \<Rightarrow> string" where
  "skipSpace s = dropWhile isJsonSpace s"

text \<open>The position of a character in a string.\<close>

fun indexOf :: "char \<Rightarrow> string \<Rightarrow> nat option" where
  "indexOf c [] = None"
| "indexOf c (x # xs) = (if c = x then Some 0 else map_option Suc (indexOf c xs))"

definition digitValue :: "char \<Rightarrow> nat option" where
  "digitValue c = indexOf c ''0123456789''"

definition hexValue :: "char \<Rightarrow> nat option" where
  "hexValue c =
     (case indexOf c ''0123456789abcdef'' of
        Some d \<Rightarrow> Some d
      | None \<Rightarrow> map_option (\<lambda>d. 10 + d) (indexOf c ''ABCDEF''))"

definition isDigit :: "char \<Rightarrow> bool" where
  "isDigit c = (digitValue c \<noteq> None)"

definition digitsValue :: "string \<Rightarrow> nat" where
  "digitsValue ds = foldl (\<lambda>a c. 10 * a + the (digitValue c)) 0 ds"

text \<open>A number: an optional minus sign, then \<open>0\<close> or a digit sequence that does not start
  with \<open>0\<close>. The parser stops after the digits; a fraction or exponent that follows is
  then an unexpected character for the caller.\<close>

definition parseNumber :: "string \<Rightarrow> (int \<times> string) option" where
  "parseNumber s =
     (let neg = (s \<noteq> [] \<and> hd s = CHR ''-'');
          s1 = (if neg then tl s else s);
          ds = takeWhile isDigit s1;
          r = dropWhile isDigit s1
      in if ds = [] then None
         else if hd ds = CHR ''0'' \<and> tl ds \<noteq> [] then None
         else Some (if neg then - int (digitsValue ds) else int (digitsValue ds), r))"

definition unescape :: "char \<Rightarrow> char option" where
  "unescape e =
     (if e = DQUOTE then Some DQUOTE
      else if e = BACKSLASH then Some BACKSLASH
      else if e = CHR ''/'' then Some (CHR ''/'')
      else if e = CHR ''b'' then Some (CHR 0x08)
      else if e = CHR ''f'' then Some (CHR 0x0C)
      else if e = CHR ''n'' then Some (CHR 0x0A)
      else if e = CHR ''r'' then Some (CHR 0x0D)
      else if e = CHR ''t'' then Some (CHR 0x09)
      else None)"

definition hex4 :: "char \<Rightarrow> char \<Rightarrow> char \<Rightarrow> char \<Rightarrow> nat option" where
  "hex4 a b c d =
     (case (hexValue a, hexValue b, hexValue c, hexValue d) of
        (Some w, Some x, Some y, Some z) \<Rightarrow> Some (((w * 16 + x) * 16 + y) * 16 + z)
      | _ \<Rightarrow> None)"

text \<open>The characters of a string after its opening quote, up to the closing one. A
  \<open>\uXXXX\<close> escape of a code unit from 256 on is outside the model and rejected.\<close>

fun parseChars :: "string \<Rightarrow> (string \<times> string) option" where
  "parseChars [] = None"
| "parseChars [c] = (if c = DQUOTE then Some ([], []) else None)"
| "parseChars (c # e # r) =
     (if c = DQUOTE then Some ([], e # r)
      else if c = BACKSLASH then
        (if e = CHR ''u'' then
           (case r of
              h1 # h2 # h3 # h4 # r' \<Rightarrow>
                (case hex4 h1 h2 h3 h4 of
                   None \<Rightarrow> None
                 | Some n \<Rightarrow>
                     if n < 256 then
                       (case parseChars r' of
                          None \<Rightarrow> None
                        | Some (s, rest) \<Rightarrow> Some (char_of n # s, rest))
                     else None)
            | _ \<Rightarrow> None)
         else
           (case unescape e of
              None \<Rightarrow> None
            | Some ch \<Rightarrow>
                (case parseChars r of
                   None \<Rightarrow> None
                 | Some (s, rest) \<Rightarrow> Some (ch # s, rest))))
      else if (of_char c :: nat) < 32 then None
      else
        (case parseChars (e # r) of
           None \<Rightarrow> None
         | Some (s, rest) \<Rightarrow> Some (c # s, rest)))"

text \<open>Values, the elements of an array after \<open>[\<close> or a comma, and the members of an
  object after \<open>{\<close> or a comma. The first argument bounds the depth of the recursion;
  every call consumes a character, so the length of the text is always enough.\<close>

fun parseValue :: "nat \<Rightarrow> string \<Rightarrow> (json \<times> string) option"
  and parseElements :: "nat \<Rightarrow> string \<Rightarrow> (json list \<times> string) option"
  and parseMembers :: "nat \<Rightarrow> string \<Rightarrow> ((string \<times> json) list \<times> string) option"
where
  "parseValue 0 s = None"
| "parseValue (Suc n) s =
     (case s of
        [] \<Rightarrow> None
      | c # cs \<Rightarrow>
          if c = CHR ''['' then
            (case skipSpace cs of
               [] \<Rightarrow> None
             | d # r \<Rightarrow>
                 if d = CHR '']'' then Some (JArr [], r)
                 else (case parseElements n cs of
                         None \<Rightarrow> None
                       | Some (vs, rest) \<Rightarrow> Some (JArr vs, rest)))
          else if c = CHR ''{'' then
            (case skipSpace cs of
               [] \<Rightarrow> None
             | d # r \<Rightarrow>
                 if d = CHR ''}'' then Some (JObj [], r)
                 else (case parseMembers n cs of
                         None \<Rightarrow> None
                       | Some (ps, rest) \<Rightarrow> Some (JObj ps, rest)))
          else if c = DQUOTE then
            (case parseChars cs of
               None \<Rightarrow> None
             | Some (str, rest) \<Rightarrow> Some (JStr str, rest))
          else if startsWith s ''null'' then Some (JNull, drop 4 s)
          else if startsWith s ''true'' then Some (JBool True, drop 4 s)
          else if startsWith s ''false'' then Some (JBool False, drop 5 s)
          else (case parseNumber s of
                  None \<Rightarrow> None
                | Some (i, rest) \<Rightarrow> Some (JNum i, rest)))"
| "parseElements 0 s = None"
| "parseElements (Suc n) s =
     (case parseValue n (skipSpace s) of
        None \<Rightarrow> None
      | Some (v, r) \<Rightarrow>
          (case skipSpace r of
             [] \<Rightarrow> None
           | d # r' \<Rightarrow>
               if d = COMMA then
                 (case parseElements n r' of
                    None \<Rightarrow> None
                  | Some (vs, rest) \<Rightarrow> Some (v # vs, rest))
               else if d = CHR '']'' then Some ([v], r')
               else None))"
| "parseMembers 0 s = None"
| "parseMembers (Suc n) s =
     (case skipSpace s of
        [] \<Rightarrow> None
      | q # s1 \<Rightarrow>
          if q \<noteq> DQUOTE then None
          else
            (case parseChars s1 of
               None \<Rightarrow> None
             | Some (k, s2) \<Rightarrow>
                 (case skipSpace s2 of
                    [] \<Rightarrow> None
                  | col # s3 \<Rightarrow>
                      if col \<noteq> CHR '':'' then None
                      else
                        (case parseValue n (skipSpace s3) of
                           None \<Rightarrow> None
                         | Some (v, r) \<Rightarrow>
                             (case skipSpace r of
                                [] \<Rightarrow> None
                              | d # r' \<Rightarrow>
                                  if d = COMMA then
                                    (case parseMembers n r' of
                                       None \<Rightarrow> None
                                     | Some (ps, rest) \<Rightarrow> Some ((k, v) # ps, rest))
                                  else if d = CHR ''}'' then Some ([(k, v)], r')
                                  else None)))))"

text \<open>What may follow a number in a text: the end, or a character that is not a digit.\<close>

definition okRest :: "string \<Rightarrow> bool" where
  "okRest rest = (rest = [] \<or> \<not> isDigit (hd rest))"

definition JSON_parse :: "string \<Rightarrow> error + json" where
  "JSON_parse s =
     (case parseValue (Suc (length s)) (skipSpace s) of
        None \<Rightarrow> Inl SyntaxError
      | Some (v, rest) \<Rightarrow> if skipSpace rest = [] then Inr v else Inl SyntaxError)"

subsection \<open>Property reads on parsed values\<close>

text \<open>\<open>entry.date\<close>: reading a property of \<open>null\<close> throws; an object yields its member
  (the last one of that name, as \<open>JSON.parse\<close> keeps the last duplicate) or \<open>undefined\<close>,
  here \<open>None\<close>; numbers, booleans, strings and arrays have no property \<open>date\<close>.\<close>

fun entryDate :: "json \<Rightarrow> error + json option" where
  "entryDate JNull = Inl TypeError"
| "entryDate (JObj ps) = Inr (map_of (rev ps) ''date'')"
| "entryDate (JBool b) = Inr None"
| "entryDate (JNum n) = Inr None"
| "entryDate (JStr s) = Inr None"
| "entryDate (JArr vs) = Inr None"

text \<open>\<open>JSON.parse(existingContent).length\<close>.\<close>

fun lengthOf :: "json \<Rightarrow> error + json option" where
  "lengthOf JNull = Inl TypeError"
| "lengthOf (JArr vs) = Inr (Some (JNum (int (length vs))))"
| "lengthOf (JStr s) = Inr (Some (JNum (int (length s))))"
| "lengthOf (JObj ps) = Inr (map_of (rev ps) ''length'')"
| "lengthOf (JBool b) = Inr None"
| "lengthOf (JNum n) = Inr None"

text \<open>\<open>insightsCount < 14\<close>. \<open>undefined\<close> compares as \<open>NaN\<close>, \<open>null\<close> as 0, a boolean as 0
  or 1. A string, array or object can only be the \<open>length\<close> member of a file whose top
  level is an object; JavaScript would convert it with \<open>ToNumber\<close>, which is not
  modelled: the comparison is taken as false there.\<close>

fun lessThan14 :: "json option \<Rightarrow> bool" where
  "lessThan14 None = False"
| "lessThan14 (Some (JNum n)) = (n < 14)"
| "lessThan14 (Some JNull) = True"
| "lessThan14 (Some (JBool b)) = True"
| "lessThan14 (Some (JStr s)) = False"
| "lessThan14 (Some (JArr vs)) = False"
| "lessThan14 (Some (JObj ps)) = False"

text \<open>The string that \<open>Array.prototype.join\<close> makes of an element: \<open>undefined\<close> and
  \<open>null\<close> give the empty string, an array is joined with commas in turn.\<close>

fun joinString :: "json \<Rightarrow> string" where
  "joinString JNull = []"
| "joinString (JBool b) = (if b then ''true'' else ''false'')"
| "joinString (JNum n) = intToString n"
| "joinString (JStr s) = s"
| "joinString (JArr vs) = join [COMMA] (map joinString vs)"
| "joinString (JObj ps) = ''[object Object]''"

subsection \<open>\<open>generateFileContent\<close>\<close>

text \<open>The object \<open>{ count, uniques }\<close> of one day of traffic or clones.\<close>

record counts =
  count :: nat
  uniques :: nat

definition csvHeaders :: "string list" where
  "csvHeaders =
     [''date'', ''stargazers'', ''commits'', ''contributors'', ''traffic_views'',
      ''traffic_uniques'', ''clones_count'', ''clones_uniques'']"

text \<open>The members of \<open>newEntry\<close>, in the order of the object literal.\<close>

definition newEntry ::
  "nat \<Rightarrow> nat \<Rightarrow> nat \<Rightarrow> counts \<Rightarrow> counts \<Rightarrow> string \<Rightarrow> (string \<times> json) list" where
  "newEntry stargazerCount commitCount contributorsCount yesterdayTraffic yesterdayClones
       yesterdayDateString =
     [(''date'', JStr yesterdayDateString),
      (''stargazers'', JNum (int stargazerCount)),
      (''commits'', JNum (int commitCount)),
      (''contributors'', JNum (int contributorsCount)),
      (''traffic_views'', JNum (int (count yesterdayTraffic))),
      (''traffic_uniques'', JNum (int (uniques yesterdayTraffic))),
      (''clones_count'', JNum (int (count yesterdayClones))),
      (''clones_uniques'', JNum (int (uniques yesterdayClones)))]"

text \<open>The JSON branch after \<open>JSON.parse\<close> (lines 353 to 363): \<open>findIndex\<close> exists on arrays
  only; the entry found is overwritten in place, otherwise the new entry is pushed.\<close>

definition upsertJson :: "json \<Rightarrow> (string \<times> json) list \<Rightarrow> string \<Rightarrow> error + json" where
  "upsertJson existingData entry entryDateString =
     (case existingData of
        JArr entries \<Rightarrow>
          (case findIndexE
                  (\<lambda>e. case entryDate e of
                          Inl err \<Rightarrow> Inl err
                        | Inr d \<Rightarrow> Inr (d = Some (JStr entryDateString)))
                  entries of
             Inl err \<Rightarrow> Inl err
           | Inr existingEntryIndex \<Rightarrow>
               if existingEntryIndex \<noteq> -1
               then Inr (JArr (entries[nat existingEntryIndex := JObj entry]))
               else Inr (JArr (entries @ [JObj entry])))
      | _ \<Rightarrow> Inl TypeError)"

text \<open>\<open>insightsFile.split("\n").filter((line) => line.trim() !== "")\<close>.\<close>

definition csvLinesOf :: "string \<Rightarrow> string list" where
  "csvLinesOf text = filter (\<lambda>line. trim line \<noteq> []) (split LF text)"

text \<open>\<open>csvHeaders.map((header) => newEntry[header]).join(",")\<close>.\<close>

definition csvLineOf :: "(string \<times> json) list \<Rightarrow> string" where
  "csvLineOf entry =
     join [COMMA]
       (map (\<lambda>header. case map_of (rev entry) header of None \<Rightarrow> [] | Some v \<Rightarrow> joinString v)
            csvHeaders)"

text \<open>The CSV branch on the lines (lines 382 to 394): the first line that starts with
  the date is overwritten, otherwise the new line is pushed.\<close>

definition upsertCsv :: "string list \<Rightarrow> string \<Rightarrow> string \<Rightarrow> string list" where
  "upsertCsv csvLines csvLine entryDateString =
     (let existingEntryIndex = findIndex (\<lambda>line. startsWith line entryDateString) csvLines
      in if existingEntryIndex \<noteq> -1
         then csvLines[nat existingEntryIndex := csvLine]
         else csvLines @ [csvLine])"

text \<open>\<open>generateFileContent\<close>. \<open>insightsFile\<close> is \<open>None\<close> for \<open>undefined\<close>, which is also what
  the function returns for a format that is neither \<open>json\<close> nor \<open>csv\<close>. Whatever is thrown
  inside the \<open>try\<close> is thrown again as \<open>Unable to generate file content\<close>.\<close>

definition generateFileContent ::
  "string option \<Rightarrow> nat \<Rightarrow> nat \<Rightarrow> nat \<Rightarrow> counts \<Rightarrow> counts \<Rightarrow> string \<Rightarrow> string
     \<Rightarrow> error + string option" where
  "generateFileContent insightsFile stargazerCount commitCount contributorsCount
       yesterdayTraffic yesterdayClones yesterdayDateString format =
     (let entry = newEntry stargazerCount commitCount contributorsCount yesterdayTraffic
                    yesterdayClones yesterdayDateString
      in if format = ''json'' then
           (case (case insightsFile of None \<Rightarrow> Inl SyntaxError | Some text \<Rightarrow> JSON_parse text) of
              Inl err \<Rightarrow> Inl (UnableToGenerate err)
            | Inr existingData \<Rightarrow>
                (case upsertJson existingData entry yesterdayDateString of
                   Inl err \<Rightarrow> Inl (UnableToGenerate err)
                 | Inr newData \<Rightarrow> Inr (Some (JSON_stringify newData))))
         else if format = ''csv'' then
           (case insightsFile of
              None \<Rightarrow> Inl (UnableToGenerate TypeError)
            | Some text \<Rightarrow>
                Inr (Some (join [LF]
                       (upsertCsv (csvLinesOf text) (csvLineOf entry) yesterdayDateString))))
         else Inr None)"

subsection \<open>The storage repository behind \<open>octokitCommit\<close>\<close>

text \<open>
  The repository named by \<open>storageOwner\<close> and \<open>storageRepo\<close>, as the git data API shows it:
  references, and objects addressed by an identifier (here the position in the object
  list; a tree is the flat list of its paths). \<open>rejects\<close> is the status with which the
  API refuses a request for a reason of its own (credentials, rate limit, network).
\<close>

type_synonym sha = nat

datatype gitObject =
    Blob "string option"
  | Tree "(string \<times> sha) list"
  | Commit sha "sha list" string

datatype request =
    GetRef string
  | CreateRef string
  | UpdateRef string
  | GetContent string string
  | GetCommit sha
  | CreateBlob
  | CreateTree
  | CreateCommit

record storage =
  refs :: "(string \<times> sha) list"
  objects :: "gitObject list"
  rejects :: "request \<Rightarrow> nat option"

definition objectAt :: "storage \<Rightarrow> sha \<Rightarrow> gitObject option" where
  "objectAt st s = (if s < length (objects st) then Some (objects st ! s) else None)"

text \<open>\<open>git.getRef({ ref })\<close> with \<open>ref\<close> of the form \<open>heads/name\<close>: the commit of the
  reference, 404 when there is no such reference.\<close>

definition getRef :: "storage \<Rightarrow> string \<Rightarrow> error + sha" where
  "getRef st ref =
     (case rejects st (GetRef ref) of
        Some status \<Rightarrow> Inl (HttpError status)
      | None \<Rightarrow>
          (case map_of (refs st) (''refs/'' @ ref) of
             None \<Rightarrow> Inl (HttpError 404)
           | Some s \<Rightarrow> Inr s))"

text \<open>\<open>git.createRef({ ref, sha })\<close> with the full name \<open>refs/heads/name\<close>: 422 when the
  reference exists already.\<close>

definition createRef :: "storage \<Rightarrow> string \<Rightarrow> sha \<Rightarrow> error + storage" where
  "createRef st ref s =
     (case rejects st (CreateRef ref) of
        Some status \<Rightarrow> Inl (HttpError status)
      | None \<Rightarrow>
          (case map_of (refs st) ref of
             Some old \<Rightarrow> Inl (HttpError 422)
           | None \<Rightarrow> Inr (st\<lparr>refs := refs st @ [(ref, s)]\<rparr>)))"

text \<open>\<open>git.updateRef({ ref, sha })\<close> with \<open>ref\<close> of the form \<open>heads/name\<close>.\<close>

definition updateRef :: "storage \<Rightarrow> string \<Rightarrow> sha \<Rightarrow> error + storage" where
  "updateRef st ref s =
     (case rejects st (UpdateRef ref) of
        Some status \<Rightarrow> Inl (HttpError status)
      | None \<Rightarrow>
          (case map_of (refs st) (''refs/'' @ ref) of
             None \<Rightarrow> Inl (HttpError 422)
           | Some old \<Rightarrow>
               Inr (st\<lparr>refs := map (\<lambda>p. if fst p = ''refs/'' @ ref then (fst p, s) else p)
                                    (refs st)\<rparr>)))"

text \<open>\<open>repos.getContent({ path, ref })\<close> followed by \<open>Base64.decode\<close>: the text of the file
  at \<open>path\<close> in the head commit of the branch \<open>ref\<close>, 404 when the branch or the file is
  missing.\<close>

definition getContent :: "storage \<Rightarrow> string \<Rightarrow> string \<Rightarrow> error + string" where
  "getContent st path ref =
     (case rejects st (GetContent path ref) of
        Some status \<Rightarrow> Inl (HttpError status)
      | None \<Rightarrow>
          (case map_of (refs st) (''refs/heads/'' @ ref) of
             None \<Rightarrow> Inl (HttpError 404)
           | Some c \<Rightarrow>
               (case objectAt st c of
                  Some (Commit t parents message) \<Rightarrow>
                    (case objectAt st t of
                       Some (Tree entries) \<Rightarrow>
                         (case map_of entries path of
                            None \<Rightarrow> Inl (HttpError 404)
                          | Some b \<Rightarrow>
                              (case objectAt st b of
                                 Some (Blob (Some text)) \<Rightarrow> Inr text
                               | _ \<Rightarrow> Inl (HttpError 404)))
                     | _ \<Rightarrow> Inl (HttpError 404))
                | _ \<Rightarrow> Inl (HttpError 404))))"

text \<open>\<open>git.getCommit({ commit_sha })\<close>, reduced to the tree of the commit.\<close>

definition getCommit :: "storage \<Rightarrow> sha \<Rightarrow> error + sha" where
  "getCommit st commitSha =
     (case rejects st (GetCommit commitSha) of
        Some status \<Rightarrow> Inl (HttpError status)
      | None \<Rightarrow>
          (case objectAt st commitSha of
             Some (Commit t parents message) \<Rightarrow> Inr t
           | _ \<Rightarrow> Inl (HttpError 404)))"

text \<open>\<open>git.createBlob\<close>, \<open>git.createTree\<close> with one entry over a base tree, and
  \<open>git.createCommit\<close>: each adds one object and returns its identifier.\<close>

definition createBlob :: "storage \<Rightarrow> string option \<Rightarrow> error + sha \<times> storage" where
  "createBlob st content =
     (case rejects st CreateBlob of
        Some status \<Rightarrow> Inl (HttpError status)
      | None \<Rightarrow>
          (case content of
             None \<Rightarrow> Inl (HttpError 422)
           | Some text \<Rightarrow>
               Inr (length (objects st), st\<lparr>objects := objects st @ [Blob content]\<rparr>)))"

definition createTree :: "storage \<Rightarrow> sha \<Rightarrow> string \<Rightarrow> sha \<Rightarrow> error + sha \<times> storage" where
  "createTree st base_tree path blobSha =
     (case rejects st CreateTree of
        Some status \<Rightarrow> Inl (HttpError status)
      | None \<Rightarrow>
          (case objectAt st base_tree of
             Some (Tree entries) \<Rightarrow>
               Inr (length (objects st),
                    st\<lparr>objects := objects st
                         @ [Tree (filter (\<lambda>p. fst p \<noteq> path) entries @ [(path, blobSha)])]\<rparr>)
           | _ \<Rightarrow> Inl (HttpError 404)))"

definition createCommit ::
  "storage \<Rightarrow> string \<Rightarrow> sha \<Rightarrow> sha list \<Rightarrow> error + sha \<times> storage" where
  "createCommit st message tree parents =
     (case rejects st CreateCommit of
        Some status \<Rightarrow> Inl (HttpError status)
      | None \<Rightarrow>
          Inr (length (objects st),
               st\<lparr>objects := objects st @ [Commit tree parents message]\<rparr>))"

subsection \<open>The metrics API behind \<open>octokitInsights\<close>\<close>

text \<open>One day of \<open>repos.getViews\<close> or \<open>repos.getClones\<close>.\<close>

record dayCounts = counts +
  timestamp :: string

text \<open>A node of the commit history: \<open>node.author\<close>, and in it \<open>user\<close>, which is \<open>null\<close> for
  an author without an account, or the login.\<close>

datatype historyNode = NoAuthor | Author "string option"

record history =
  totalCount :: nat
  nodes :: "historyNode list"

record graphqlResponse =
  repository_stargazerCount :: nat
  repository_defaultBranchRef :: "history option"

text \<open>The answers of the metrics API for the tracked repository.\<close>

record insights =
  graphql :: "error + graphqlResponse"
  getViews :: "error + dayCounts list"
  getClones :: "error + dayCounts list"

text \<open>\<open>timestamp.split("T")[0] === dateString\<close>.\<close>

definition onDate :: "string \<Rightarrow> dayCounts \<Rightarrow> bool" where
  "onDate dateString day =
     (case split (CHR ''T'') (timestamp day) of [] \<Rightarrow> False | piece # pieces \<Rightarrow> piece = dateString)"

definition getYesterdayTraffic :: "insights \<Rightarrow> string \<Rightarrow> error + counts" where
  "getYesterdayTraffic octokitInsights dateString =
     (case getViews octokitInsights of
        Inl err \<Rightarrow> Inl err
      | Inr views \<Rightarrow>
          (case find (onDate dateString) views of
             Some view \<Rightarrow> Inr \<lparr>count = count view, uniques = uniques view\<rparr>
           | None \<Rightarrow> Inr \<lparr>count = 0, uniques = 0\<rparr>))"

definition getYesterdayClones :: "insights \<Rightarrow> string \<Rightarrow> error + counts" where
  "getYesterdayClones octokitInsights dateString =
     (case getClones octokitInsights of
        Inl err \<Rightarrow> Inl err
      | Inr clones \<Rightarrow>
          (case find (onDate dateString) clones of
             Some clone \<Rightarrow> Inr \<lparr>count = count clone, uniques = uniques clone\<rparr>
           | None \<Rightarrow> Inr \<lparr>count = 0, uniques = 0\<rparr>))"

text \<open>\<open>getRepoStats\<close>: the stargazers, the commits of the default branch, and the number
  of distinct logins among the first hundred commits.\<close>

fun authorLogins :: "historyNode list \<Rightarrow> error + string list" where
  "authorLogins [] = Inr []"
| "authorLogins (NoAuthor # ns) = Inl TypeError"
| "authorLogins (Author None # ns) = authorLogins ns"
| "authorLogins (Author (Some login) # ns) =
     (case authorLogins ns of Inl err \<Rightarrow> Inl err | Inr logins \<Rightarrow> Inr (login # logins))"

definition getRepoStats :: "insights \<Rightarrow> error + nat \<times> nat \<times> nat" where
  "getRepoStats octokitInsights =
     (case graphql octokitInsights of
        Inl err \<Rightarrow> Inl err
      | Inr response \<Rightarrow>
          (case repository_defaultBranchRef response of
             None \<Rightarrow> Inl TypeError
           | Some h \<Rightarrow>
               (case authorLogins (nodes h) of
                  Inl err \<Rightarrow> Inl err
                | Inr logins \<Rightarrow>
                    Inr (repository_stargazerCount response, totalCount h,
                         length (remdups logins)))))"

subsection \<open>\<open>getInsightsFile\<close>, \<open>ensureBranchExists\<close>, \<open>commitFileToBranch\<close>\<close>

text \<open>\<open>path.join\<close> on segments that need no normalisation: empty segments are dropped.\<close>

definition pathJoin :: "string list \<Rightarrow> string" where
  "pathJoin segments = join ''/'' (filter (\<lambda>seg. seg \<noteq> []) segments)"

definition statsPath :: "string \<Rightarrow> string \<Rightarrow> string \<Rightarrow> string \<Rightarrow> string" where
  "statsPath rootDir file_path_owner file_path_repo format =
     pathJoin [pathJoin [rootDir, file_path_owner, file_path_repo], ''stats.'' @ format]"

text \<open>The body of the \<open>try\<close> of \<open>getInsightsFile\<close>: fetch, then decode by the format.\<close>

definition readInsightsFile ::
  "storage \<Rightarrow> string \<Rightarrow> string \<Rightarrow> string \<Rightarrow> error + string \<times> json option" where
  "readInsightsFile st filePath branch format =
     (case getContent st filePath branch of
        Inl err \<Rightarrow> Inl err
      | Inr existingContent \<Rightarrow>
          if format = ''json'' then
            (case JSON_parse existingContent of
               Inl err \<Rightarrow> Inl err
             | Inr parsed \<Rightarrow>
                 (case lengthOf parsed of
                    Inl err \<Rightarrow> Inl err
                  | Inr insightsCount \<Rightarrow> Inr (existingContent, insightsCount)))
          else if format = ''csv'' then
            (let csvLines = csvLinesOf existingContent
             in Inr (join [LF] csvLines, Some (JNum (int (length csvLines) - 1))))
          else Inl UnsupportedFormat)"

text \<open>\<open>getInsightsFile\<close>: the \<open>catch\<close> takes whatever the \<open>try\<close> threw and answers with
  the empty file of the format and the count 0.\<close>

definition getInsightsFile ::
  "storage \<Rightarrow> string \<Rightarrow> string \<Rightarrow> string \<Rightarrow> string \<Rightarrow> string
     \<Rightarrow> error + string \<times> json option" where
  "getInsightsFile st file_path_owner file_path_repo branch rootDir format =
     (case readInsightsFile st (statsPath rootDir file_path_owner file_path_repo format)
             branch format of
        Inr loaded \<Rightarrow> Inr loaded
      | Inl err \<Rightarrow>
          if format = ''json'' then Inr (JSON_stringify (JArr []), Some (JNum 0))
          else if format = ''csv'' then Inr (join [COMMA] csvHeaders @ [LF], Some (JNum 0))
          else Inl UnsupportedFormat)"

text \<open>\<open>ensureBranchExists\<close>: nothing to do when the reference resolves; on 404 the
  branch is created at the commit of \<open>main\<close>; any other failure of the first request is
  thrown as \<open>Error checking if branch exists\<close>.\<close>

definition ensureBranchExists :: "storage \<Rightarrow> string \<Rightarrow> error + storage" where
  "ensureBranchExists st branch =
     (case getRef st (''heads/'' @ branch) of
        Inr found \<Rightarrow> Inr st
      | Inl err \<Rightarrow>
          if err = HttpError 404 then
            (case getRef st ''heads/main'' of
               Inl err' \<Rightarrow> Inl err'
             | Inr mainSha \<Rightarrow> createRef st (''refs/heads/'' @ branch) mainSha)
          else Inl (BranchCheckFailed err))"

text \<open>\<open>commitFileToBranch\<close>: blob, tree, commit, then the reference. The objects made
  before a failing request remain.\<close>

definition commitFileToBranch ::
  "storage \<Rightarrow> string \<Rightarrow> string \<Rightarrow> string \<Rightarrow> string \<Rightarrow> string option \<Rightarrow> string
     \<Rightarrow> error option \<times> storage" where
  "commitFileToBranch st file_path_owner file_path_repo branch rootDir fileContent format =
     (let filePath = statsPath rootDir file_path_owner file_path_repo format
      in case getRef st (''heads/'' @ branch) of
           Inl err \<Rightarrow> (Some err, st)
         | Inr commitSha \<Rightarrow>
         (case getCommit st commitSha of
            Inl err \<Rightarrow> (Some err, st)
          | Inr treeSha \<Rightarrow>
          (case createBlob st fileContent of
             Inl err \<Rightarrow> (Some err, st)
           | Inr (blobSha, st1) \<Rightarrow>
           (case createTree st1 treeSha filePath blobSha of
              Inl err \<Rightarrow> (Some err, st1)
            | Inr (newTreeSha, st2) \<Rightarrow>
            (case createCommit st2
                    (''Update stats file for '' @ file_path_owner @ ''/'' @ file_path_repo)
                    newTreeSha [commitSha] of
               Inl err \<Rightarrow> (Some err, st2)
             | Inr (newCommitSha, st3) \<Rightarrow>
             (case updateRef st3 (''heads/'' @ branch) newCommitSha of
                Inl err \<Rightarrow> (Some err, st3)
              | Inr st4 \<Rightarrow> (None, st4)))))))"

subsection \<open>\<open>run\<close>\<close>

text \<open>
  What a run meets: the storage repository, the metrics API, and the calendar.
  \<open>daysAgo i\<close> is the string that \<open>new Date()\<close>, \<open>setDate(getDate() - i)\<close> and
  \<open>toISOString().split("T")[0]\<close> produce; the run is taken to fall within one day.
\<close>

record world =
  storageRepo :: storage
  octokitInsights :: insights
  daysAgo :: "int \<Rightarrow> string"

text \<open>The inputs of the action (\<open>core.getInput\<close>, empty when not given).\<close>

record inputs =
  input_owner :: string
  input_repository :: string
  input_directory :: string
  input_branch :: string
  input_format :: string

text \<open>\<open>toLowerCase\<close> on code units below 256.\<close>

definition lowerChar :: "char \<Rightarrow> char" where
  "lowerChar c =
     (let n = (of_char c :: nat)
      in if (65 \<le> n \<and> n \<le> 90) \<or> (192 \<le> n \<and> n \<le> 222 \<and> n \<noteq> 215) then char_of (n + 32) else c)"

definition toLowerCase :: "string \<Rightarrow> string" where
  "toLowerCase s = map lowerChar s"

text \<open>One turn of the backfill loop (lines 70 to 96) for the offset \<open>i\<close>.\<close>

definition backfillDay ::
  "insights \<Rightarrow> (int \<Rightarrow> string) \<Rightarrow> nat \<Rightarrow> nat \<Rightarrow> nat \<Rightarrow> string \<Rightarrow> int \<Rightarrow> string option
     \<Rightarrow> error + string option" where
  "backfillDay api dateOf stargazerCount commitCount contributorsCount format i insightsFile =
     (let yesterdayDateString = dateOf i
      in case getYesterdayTraffic api yesterdayDateString of
           Inl err \<Rightarrow> Inl err
         | Inr yesterdayTraffic \<Rightarrow>
             (case getYesterdayClones api yesterdayDateString of
                Inl err \<Rightarrow> Inl err
              | Inr yesterdayClones \<Rightarrow>
                  generateFileContent insightsFile stargazerCount commitCount
                    contributorsCount yesterdayTraffic yesterdayClones yesterdayDateString
                    format))"

text \<open>\<open>while (i != 1) { ...; i-- }\<close>. The result is \<open>None\<close> when the loop does not end.\<close>

partial_function (option) backfillLoop ::
  "insights \<Rightarrow> (int \<Rightarrow> string) \<Rightarrow> nat \<Rightarrow> nat \<Rightarrow> nat \<Rightarrow> string \<Rightarrow> int \<Rightarrow> string option
     \<Rightarrow> (error + string option) option" where
  "backfillLoop api dateOf stargazerCount commitCount contributorsCount format i insightsFile =
     (if i \<noteq> 1 then
        (case backfillDay api dateOf stargazerCount commitCount contributorsCount format i
                insightsFile of
           Inl err \<Rightarrow> Some (Inl err)
         | Inr insightsFile' \<Rightarrow>
             backfillLoop api dateOf stargazerCount commitCount contributorsCount format
               (i - 1) insightsFile')
      else Some (Inr insightsFile))"

declare backfillLoop.simps [code]

text \<open>The block of lines 61 to 98: the loop starts at 14 when \<open>insightsCount < 14\<close>.\<close>

definition backfill ::
  "insights \<Rightarrow> (int \<Rightarrow> string) \<Rightarrow> nat \<Rightarrow> nat \<Rightarrow> nat \<Rightarrow> string \<Rightarrow> json option \<Rightarrow> string option
     \<Rightarrow> (error + string option) option" where
  "backfill api dateOf stargazerCount commitCount contributorsCount format insightsCount
       insightsFile =
     (if lessThan14 insightsCount
      then backfillLoop api dateOf stargazerCount commitCount contributorsCount format 14
             insightsFile
      else Some (Inr insightsFile))"

text \<open>\<open>setOutputs\<close>.\<close>

definition setOutputs :: "nat \<Rightarrow> nat \<Rightarrow> nat \<Rightarrow> counts \<Rightarrow> counts \<Rightarrow> (string \<times> nat) list" where
  "setOutputs stargazerCount commitCount contributorsCount yesterdayTraffic yesterdayClones =
     [(''stargazers'', stargazerCount),
      (''commits'', commitCount),
      (''contributors'', contributorsCount),
      (''traffic_views'', count yesterdayTraffic),
      (''traffic_uniques'', uniques yesterdayTraffic),
      (''clones_count'', count yesterdayClones),
      (''clones_uniques'', uniques yesterdayClones)]"

text \<open>The part of \<open>run\<close> after the backfill block (lines 100 to 144).\<close>

definition publishYesterday ::
  "inputs \<Rightarrow> world \<Rightarrow> storage \<Rightarrow> string \<Rightarrow> string \<Rightarrow> string \<Rightarrow> nat \<Rightarrow> nat \<Rightarrow> nat
     \<Rightarrow> string option \<Rightarrow> (error + (string \<times> nat) list) \<times> storage" where
  "publishYesterday inp w st branch rootDir format stargazerCount commitCount
       contributorsCount insightsFile =
     (let yesterdayDateString = daysAgo w 1
      in case getYesterdayTraffic (octokitInsights w) yesterdayDateString of
           Inl err \<Rightarrow> (Inl err, st)
         | Inr yesterdayTraffic \<Rightarrow>
         (case getYesterdayClones (octokitInsights w) yesterdayDateString of
            Inl err \<Rightarrow> (Inl err, st)
          | Inr yesterdayClones \<Rightarrow>
          (case generateFileContent insightsFile stargazerCount commitCount
                  contributorsCount yesterdayTraffic yesterdayClones yesterdayDateString
                  format of
             Inl err \<Rightarrow> (Inl err, st)
           | Inr fileContent \<Rightarrow>
           (case commitFileToBranch st (input_owner inp) (input_repository inp) branch
                   rootDir fileContent format of
              (Some err, st') \<Rightarrow> (Inl err, st')
            | (None, st') \<Rightarrow>
                (Inr (setOutputs stargazerCount commitCount contributorsCount
                        yesterdayTraffic yesterdayClones), st')))))"

text \<open>The inputs with their defaults: \<open>core.getInput("directory") || ".insights"\<close>,
  \<open>core.getInput("branch") || "repository-insights"\<close>, and
  \<open>(core.getInput("format") || "json").toLowerCase()\<close>.\<close>

definition rootDirOf :: "inputs \<Rightarrow> string" where
  "rootDirOf inp = (if input_directory inp = [] then ''.insights'' else input_directory inp)"

definition branchOf :: "inputs \<Rightarrow> string" where
  "branchOf inp = (if input_branch inp = [] then ''repository-insights'' else input_branch inp)"

definition formatOf :: "inputs \<Rightarrow> string" where
  "formatOf inp = toLowerCase (if input_format inp = [] then ''json'' else input_format inp)"

text \<open>\<open>run\<close>: the result is what the \<open>catch\<close> reports (\<open>Inl\<close>, by \<open>core.setFailed\<close>) or the
  outputs, together with the storage repository as the run leaves it.\<close>

definition run :: "inputs \<Rightarrow> world \<Rightarrow> ((error + (string \<times> nat) list) \<times> storage) option" where
  "run inp w =
     (let rootDir = rootDirOf inp; branch = branchOf inp; format = formatOf inp
      in case getRepoStats (octokitInsights w) of
           Inl err \<Rightarrow> Some (Inl err, storageRepo w)
         | Inr (stargazerCount, commitCount, contributorsCount) \<Rightarrow>
         (case ensureBranchExists (storageRepo w) branch of
            Inl err \<Rightarrow> Some (Inl err, storageRepo w)
          | Inr st \<Rightarrow>
          (case getInsightsFile st (input_owner inp) (input_repository inp) branch rootDir
                  format of
             Inl err \<Rightarrow> Some (Inl err, st)
           | Inr (insightsFile, insightsCount) \<Rightarrow>
           (case backfill (octokitInsights w) (daysAgo w) stargazerCount commitCount
                   contributorsCount format insightsCount (Some insightsFile) of
              None \<Rightarrow> None
            | Some (Inl err) \<Rightarrow> Some (Inl err, st)
            | Some (Inr insightsFile') \<Rightarrow>
                Some (publishYesterday inp w st branch rootDir format stargazerCount
                        commitCount contributorsCount insightsFile')))))"

subsection \<open>Datasets, for the statements below\<close>

text \<open>The date strings of \<open>toISOString().split("T")[0]\<close>: \<open>YYYY-MM-DD\<close>, or a sign and six
  digits for a year outside 0 to 9999. In a shape, \<open>d\<close> stands for a digit.\<close>

fun shaped :: "string \<Rightarrow> string \<Rightarrow> bool" where
  "shaped [] [] = True"
| "shaped (p # ps) (c # cs) = ((if p = CHR ''d'' then isDigit c else c = p) \<and> shaped ps cs)"
| "shaped [] (c # cs) = False"
| "shaped (p # ps) [] = False"

definition isoDate :: "string \<Rightarrow> bool" where
  "isoDate d =
     (shaped ''dddd-dd-dd'' d \<or> shaped ''+dddddd-dd-dd'' d \<or> shaped ''-dddddd-dd-dd'' d)"

text \<open>The header line, the date of a line (its first field), a data row, and a CSV
  dataset: the header followed by rows.\<close>

definition csvHeaderLine :: string where
  "csvHeaderLine = join [COMMA] csvHeaders"

definition csvDate :: "string \<Rightarrow> string" where
  "csvDate line = takeWhile (\<lambda>c. c \<noteq> COMMA) line"

definition csvRow :: "string \<Rightarrow> bool" where
  "csvRow line = (isoDate (csvDate line) \<and> LF \<notin> set line)"

definition csvDataset :: "string list \<Rightarrow> bool" where
  "csvDataset csvLines =
     (case csvLines of [] \<Rightarrow> False | h # rows \<Rightarrow> h = csvHeaderLine \<and> list_all csvRow rows)"

definition uniqueDatesCsv :: "string list \<Rightarrow> bool" where
  "uniqueDatesCsv csvLines = distinct (map csvDate csvLines)"

text \<open>The dates of the entries of a JSON dataset that have one.\<close>

definition definedDates :: "json list \<Rightarrow> json list" where
  "definedDates entries =
     List.map_filter (\<lambda>e. case entryDate e of Inr (Some v) \<Rightarrow> Some v | _ \<Rightarrow> None) entries"

definition uniqueDatesJson :: "json list \<Rightarrow> bool" where
  "uniqueDatesJson entries = distinct (definedDates entries)"

text \<open>A sequence of calls of \<open>generateFileContent\<close>, each on the result of the one before,
  for a list of day records (the three totals, traffic, clones, date).\<close>

type_synonym dayRecord = "nat \<times> nat \<times> nat \<times> counts \<times> counts \<times> string"

fun upsertAll :: "string \<Rightarrow> dayRecord list \<Rightarrow> string option \<Rightarrow> error + string option" where
  "upsertAll format [] insightsFile = Inr insightsFile"
| "upsertAll format ((s, c, k, t, cl, d) # rs) insightsFile =
     (case generateFileContent insightsFile s c k t cl d format of
        Inl err \<Rightarrow> Inl err
      | Inr insightsFile' \<Rightarrow> upsertAll format rs insightsFile')"

text \<open>The turns of the backfill loop for a list of offsets, one after the other.\<close>

fun backfillDays ::
  "insights \<Rightarrow> (int \<Rightarrow> string) \<Rightarrow> nat \<Rightarrow> nat \<Rightarrow> nat \<Rightarrow> string \<Rightarrow> int list \<Rightarrow> string option
     \<Rightarrow> error + string option" where
  "backfillDays api dateOf stargazerCount commitCount contributorsCount format []
       insightsFile = Inr insightsFile"
| "backfillDays api dateOf stargazerCount commitCount contributorsCount format (i # offsets)
       insightsFile =
     (case backfillDay api dateOf stargazerCount commitCount contributorsCount format i
             insightsFile of
        Inl err \<Rightarrow> Inl err
      | Inr insightsFile' \<Rightarrow>
          backfillDays api dateOf stargazerCount commitCount contributorsCount format offsets
            insightsFile')"

text \<open>The entry that the backfill writes for the offset \<open>i\<close>, member by member: the
  totals of the run, and the traffic and clones that the metrics API reports for the date
  of the offset. Then the line that it writes in the CSV format.\<close>

definition backfilledEntry ::
  "insights \<Rightarrow> (int \<Rightarrow> string) \<Rightarrow> nat \<Rightarrow> nat \<Rightarrow> nat \<Rightarrow> int \<Rightarrow> json \<Rightarrow> bool" where
  "backfilledEntry api dateOf stargazerCount commitCount contributorsCount i e =
     (case (getYesterdayTraffic api (dateOf i), getYesterdayClones api (dateOf i)) of
        (Inr views, Inr clones) \<Rightarrow>
          e = JObj [(''date'', JStr (dateOf i)),
                    (''stargazers'', JNum (int stargazerCount)),
                    (''commits'', JNum (int commitCount)),
                    (''contributors'', JNum (int contributorsCount)),
                    (''traffic_views'', JNum (int (count views))),
                    (''traffic_uniques'', JNum (int (uniques views))),
                    (''clones_count'', JNum (int (count clones))),
                    (''clones_uniques'', JNum (int (uniques clones)))]
      | _ \<Rightarrow> False)"

definition backfilledLine ::
  "insights \<Rightarrow> (int \<Rightarrow> string) \<Rightarrow> nat \<Rightarrow> nat \<Rightarrow> nat \<Rightarrow> int \<Rightarrow> string \<Rightarrow> bool" where
  "backfilledLine api dateOf stargazerCount commitCount contributorsCount i line =
     (case (getYesterdayTraffic api (dateOf i), getYesterdayClones api (dateOf i)) of
        (Inr views, Inr clones) \<Rightarrow>
          line = join [COMMA]
                   [dateOf i, natToString stargazerCount, natToString commitCount,
                    natToString contributorsCount, natToString (count views),
                    natToString (uniques views), natToString (count clones),
                    natToString (uniques clones)]
      | _ \<Rightarrow> False)"

subsection \<open>Example inputs\<close>

text \<open>A storage repository with the branch \<open>main\<close> only, a metrics API with one day of
  views, a calendar, and the inputs of a run that asks for an unknown format.\<close>

definition exampleStorage :: storage where
  "exampleStorage =
     \<lparr>refs = [(''refs/heads/main'', 1)],
      objects = [Tree [], Commit 0 [] ''initial commit''],
      rejects = (\<lambda>request. None)\<rparr>"

text \<open>The same repository after a run has committed \<open>content\<close> at \<open>path\<close> on the branch
  \<open>repository-insights\<close>.\<close>

definition storageWithFile :: "string \<Rightarrow> string \<Rightarrow> storage" where
  "storageWithFile path content =
     \<lparr>refs = [(''refs/heads/main'', 1), (''refs/heads/repository-insights'', 4)],
      objects = [Tree [], Commit 0 [] ''initial commit'', Blob (Some content),
                 Tree [(path, 2)], Commit 3 [1] ''Update stats file for octo/demo''],
      rejects = (\<lambda>request. None)\<rparr>"

text \<open>The same, with an API that refuses to serve file contents (status 403).\<close>

definition deniedStorage :: "string \<Rightarrow> string \<Rightarrow> storage" where
  "deniedStorage path content =
     (storageWithFile path content)
       \<lparr>rejects := (\<lambda>request. case request of GetContent p r \<Rightarrow> Some 403 | _ \<Rightarrow> None)\<rparr>"

definition exampleInsights :: insights where
  "exampleInsights =
     \<lparr>graphql = Inr \<lparr>repository_stargazerCount = 10,
                     repository_defaultBranchRef =
                       Some \<lparr>totalCount = 42,
                             nodes = [Author (Some ''alice''), Author None,
                                      Author (Some ''alice''), Author (Some ''bob'')]\<rparr>\<rparr>,
      getViews = Inr [\<lparr>count = 3, uniques = 2, timestamp = ''2024-01-12T00:00:00Z''\<rparr>],
      getClones = Inr []\<rparr>"

definition exampleCalendar :: "int \<Rightarrow> string" where
  "exampleCalendar i =
     (if 0 \<le> i \<and> i \<le> 14
      then ''2024-01-'' @ (if 5 < i then [CHR ''0''] else []) @ intToString (15 - i)
      else ''2023-12-31'')"

definition exampleWorld :: world where
  "exampleWorld =
     \<lparr>storageRepo = exampleStorage, octokitInsights = exampleInsights,
      daysAgo = exampleCalendar\<rparr>"

definition exampleInputs :: inputs where
  "exampleInputs =
     \<lparr>input_owner = ''octo'', input_repository = ''demo'', input_directory = [],
      input_branch = [], input_format = ''xml''\<rparr>"

section \<open>Properties of the runtime model\<close>

subsection \<open>Numbers and strings survive \<open>JSON.stringify\<close> and \<open>JSON.parse\<close>\<close>

declare natToString.simps [simp del]

lemma digitValue_digitChar: "d < 10 \<Longrightarrow> digitValue (digitChar d) = Some d"
proof -
  have "\<forall>d \<in> set [0..<10]. digitValue (digitChar d) = Some d"
    by code_simp
  moreover assume "d < 10"
  ultimately show ?thesis by simp
qed
lemma digitChar_zero: "d < 10 \<Longrightarrow> digitChar d = CHR ''0'' \<longleftrightarrow> d = 0"
proof -
  have "\<forall>d \<in> set [0..<10]. digitChar d = CHR ''0'' \<longleftrightarrow> d = 0"
    by code_simp
  moreover assume "d < 10"
  ultimately show ?thesis by simp
qed

lemma isDigit_digitChar: "d < 10 \<Longrightarrow> isDigit (digitChar d)"
  by (simp add: isDigit_def digitValue_digitChar)

lemma natToString_digits: "\<forall>c \<in> set (natToString n). isDigit c"
proof (induction n rule: natToString.induct)
  case (1 n)
  show ?case
  proof (cases "n < 10")
    case True
    then show ?thesis by (simp add: natToString.simps [of n] isDigit_digitChar)
  next
    case False
    with 1 show ?thesis by (simp add: natToString.simps [of n] isDigit_digitChar)
  qed
qed

lemma natToString_nonempty: "natToString n \<noteq> []"
  by (simp add: natToString.simps [of n])

lemma digitsValue_snoc: "digitsValue (ds @ [c]) = 10 * digitsValue ds + the (digitValue c)"
  by (simp add: digitsValue_def)

lemma digitsValue_natToString: "digitsValue (natToString n) = n"
proof (induction n rule: natToString.induct)
  case (1 n)
  show ?case
  proof (cases "n < 10")
    case True
    then show ?thesis
      by (simp add: natToString.simps [of n] digitsValue_def digitValue_digitChar)
  next
    case False
    with 1 show ?thesis
      by (simp add: natToString.simps [of n] digitsValue_snoc digitValue_digitChar)
  qed
qed

lemma hd_natToString_zero: "hd (natToString n) = CHR ''0'' \<Longrightarrow> n = 0"
proof (induction n rule: natToString.induct)
  case (1 n)
  show ?case
  proof (cases "n < 10")
    case True
    with 1(2) show ?thesis by (simp add: natToString.simps [of n] digitChar_zero)
  next
    case False
    with 1(2) have "hd (natToString (n div 10)) = CHR ''0''"
      by (simp add: natToString.simps [of n] natToString_nonempty)
    with 1(1) False have "n div 10 = 0" by simp
    with False show ?thesis by simp
  qed
qed

lemma natToString_no_leading_zero:
  "\<not> (hd (natToString n) = CHR ''0'' \<and> tl (natToString n) \<noteq> [])"
proof
  assume a: "hd (natToString n) = CHR ''0'' \<and> tl (natToString n) \<noteq> []"
  then have "n = 0" using hd_natToString_zero by blast
  with a show False by (simp add: natToString.simps [of 0])
qed

lemma takeWhile_natToString:
  "okRest rest \<Longrightarrow> takeWhile isDigit (natToString n @ rest) = natToString n"
  using natToString_digits [of n]
  by (auto simp: okRest_def takeWhile_append2 takeWhile_eq_Nil_iff)

lemma dropWhile_natToString:
  "okRest rest \<Longrightarrow> dropWhile isDigit (natToString n @ rest) = rest"
  using natToString_digits [of n]
  by (auto simp: okRest_def dropWhile_append2 dropWhile_eq_self_iff)

lemma hd_natToString_isDigit: "isDigit (hd (natToString n))"
  using natToString_digits [of n] natToString_nonempty [of n]
  by (cases "natToString n") auto

lemma isDigit_not_minus: "isDigit c \<Longrightarrow> c \<noteq> CHR ''-''"
  by (auto simp: isDigit_def digitValue_def)

lemma parseNumber_natToString:
  assumes "okRest rest"
  shows "parseNumber (natToString n @ rest) = Some (int n, rest)"
proof -
  have "hd (natToString n @ rest) \<noteq> CHR ''-''"
    using hd_natToString_isDigit [of n] natToString_nonempty [of n] isDigit_not_minus
    by (simp add: hd_append)
  then show ?thesis
    using assms natToString_no_leading_zero [of n]
    by (simp add: parseNumber_def Let_def takeWhile_natToString dropWhile_natToString
        natToString_nonempty digitsValue_natToString)
qed

lemma parseNumber_intToString:
  assumes "okRest rest"
  shows "parseNumber (intToString i @ rest) = Some (i, rest)"
proof (cases "i < 0")
  case True
  then show ?thesis
    using assms natToString_no_leading_zero [of "nat (- i)"]
    by (simp add: intToString_def parseNumber_def Let_def takeWhile_natToString
        dropWhile_natToString natToString_nonempty digitsValue_natToString)
next
  case False
  then show ?thesis
    using parseNumber_natToString [OF assms, of "nat i"] by (simp add: intToString_def)
qed

lemma parseChars_plain:
  "c \<noteq> DQUOTE \<Longrightarrow> c \<noteq> BACKSLASH \<Longrightarrow> \<not> (of_char c :: nat) < 32 \<Longrightarrow> T \<noteq> [] \<Longrightarrow>
   parseChars (c # T) =
     (case parseChars T of None \<Rightarrow> None | Some (s, rest) \<Rightarrow> Some (c # s, rest))"
  by (cases T) simp_all

lemma parseChars_escape:
  "e \<noteq> CHR ''u'' \<Longrightarrow> unescape e = Some ch \<Longrightarrow>
   parseChars (BACKSLASH # e # T) =
     (case parseChars T of None \<Rightarrow> None | Some (s, rest) \<Rightarrow> Some (ch # s, rest))"
  by simp

lemma parseChars_unicode:
  "hex4 h1 h2 h3 h4 = Some n \<Longrightarrow> n < 256 \<Longrightarrow> char_of n = c \<Longrightarrow>
   parseChars (BACKSLASH # CHR ''u'' # h1 # h2 # h3 # h4 # T) =
     (case parseChars T of None \<Rightarrow> None | Some (s, rest) \<Rightarrow> Some (c # s, rest))"
  by auto

lemma parseChars_closing: "parseChars (DQUOTE # rest) = Some ([], rest)"
  by (cases rest) simp_all

declare parseChars.simps [simp del]

lemma hexValue_hexChar: "d < 16 \<Longrightarrow> hexValue (hexChar d) = Some d"
proof -
  have "\<forall>d \<in> set [0..<16]. hexValue (hexChar d) = Some d"
    by code_simp
  moreover assume "d < 16"
  ultimately show ?thesis by simp
qed

lemma hex4_quote:
  assumes "n < 32"
  shows "hex4 (CHR ''0'') (CHR ''0'') (hexChar (n div 16)) (hexChar (n mod 16)) = Some n"
proof -
  have "n div 16 < 16" using assms by simp
  then show ?thesis
    by (simp add: hex4_def hexValue_hexChar) (simp add: hexValue_def digitValue_def)
qed

lemma parseChars_quoteChar:
  assumes "T \<noteq> []"
  shows "parseChars (quoteChar c @ T) =
     (case parseChars T of None \<Rightarrow> None | Some (s, rest) \<Rightarrow> Some (c # s, rest))"
proof -
  consider (esc) "c = DQUOTE \<or> c = BACKSLASH \<or> c = CHR 0x08 \<or> c = CHR 0x0C \<or> c = CHR 0x0A
        \<or> c = CHR 0x0D \<or> c = CHR 0x09"
    | (ctl) "\<not> (c = DQUOTE \<or> c = BACKSLASH \<or> c = CHR 0x08 \<or> c = CHR 0x0C \<or> c = CHR 0x0A
        \<or> c = CHR 0x0D \<or> c = CHR 0x09)" "(of_char c :: nat) < 32"
    | (plain) "\<not> (c = DQUOTE \<or> c = BACKSLASH \<or> c = CHR 0x08 \<or> c = CHR 0x0C \<or> c = CHR 0x0A
        \<or> c = CHR 0x0D \<or> c = CHR 0x09)" "\<not> (of_char c :: nat) < 32"
    by blast
  then show ?thesis
  proof cases
    case esc
    then show ?thesis
      by (auto simp: quoteChar_def parseChars_escape unescape_def)
  next
    case ctl
    have "parseChars (BACKSLASH # CHR ''u'' # CHR ''0'' # CHR ''0''
            # hexChar ((of_char c :: nat) div 16) # hexChar ((of_char c :: nat) mod 16) # T) =
          (case parseChars T of None \<Rightarrow> None | Some (s, rest) \<Rightarrow> Some (c # s, rest))"
      using ctl(2) by (intro parseChars_unicode [where n = "of_char c"] hex4_quote) simp_all
    with ctl show ?thesis by (simp add: quoteChar_def)
  next
    case plain
    with assms show ?thesis by (simp add: quoteChar_def parseChars_plain)
  qed
qed

lemma parseChars_quoted:
  "parseChars (concat (map quoteChar s) @ DQUOTE # rest) = Some (s, rest)"
proof (induction s)
  case Nil
  show ?case by (simp add: parseChars_closing)
next
  case (Cons c s)
  have "parseChars (quoteChar c @ (concat (map quoteChar s) @ DQUOTE # rest)) = Some (c # s, rest)"
    by (subst parseChars_quoteChar) (simp_all add: Cons.IH)
  then show ?case by simp
qed

lemma parseChars_quoteJSONString:
  "parseChars (tl (quoteJSONString s) @ rest) = Some (s, rest)"
  using parseChars_quoted [of s rest] by (simp add: quoteJSONString_def)

subsection \<open>Every value survives \<open>JSON.stringify\<close> and \<open>JSON.parse\<close>\<close>

lemma skipSpace_nonspace: "\<not> isJsonSpace c \<Longrightarrow> skipSpace (c # s) = c # s"
  by (simp add: skipSpace_def)

lemma skipSpace_LF: "skipSpace (LF # s) = skipSpace s"
  by (simp add: skipSpace_def isJsonSpace_def)

lemma skipSpace_SP: "skipSpace (CHR '' '' # s) = skipSpace s"
  by (simp add: skipSpace_def isJsonSpace_def)

lemma skipSpace_indent: "set ind \<subseteq> {CHR '' ''} \<Longrightarrow> skipSpace (ind @ s) = skipSpace s"
  by (induction ind) (auto simp: skipSpace_SP)

lemma isDigit_start:
  "isDigit c \<Longrightarrow> \<not> isJsonSpace c \<and> c \<noteq> CHR '']'' \<and> c \<noteq> CHR ''}'' \<and> c \<noteq> CHR ''[''
     \<and> c \<noteq> CHR ''{'' \<and> c \<noteq> DQUOTE \<and> c \<noteq> CHR ''n'' \<and> c \<noteq> CHR ''t'' \<and> c \<noteq> CHR ''f''"
  by (auto simp: isDigit_def digitValue_def isJsonSpace_def split: if_splits)

lemma natToString_start:
  "\<exists>c t. natToString n = c # t \<and> isDigit c"
  using hd_natToString_isDigit [of n] natToString_nonempty [of n]
  by (cases "natToString n") auto

lemma stringify_start:
  "\<exists>c t. stringify ind v = c # t \<and> \<not> isJsonSpace c \<and> c \<noteq> CHR '']'' \<and> c \<noteq> CHR ''}''"
proof (cases v)
  case (JNum i)
  obtain c t where ct: "natToString (nat i) = c # t" "isDigit c"
    using natToString_start by blast
  show ?thesis
  proof (cases "i < 0")
    case True
    with JNum show ?thesis by (simp add: intToString_def isJsonSpace_def)
  next
    case False
    with JNum ct isDigit_start [of c] show ?thesis by (simp add: intToString_def)
  qed
qed (auto simp: isJsonSpace_def quoteJSONString_def)

lemma skipSpace_stringify: "skipSpace (stringify ind v @ r) = stringify ind v @ r"
  using stringify_start [of ind v] by (auto simp: skipSpace_nonspace)

lemma parseValue_null: "parseValue (Suc n) (''null'' @ rest) = Some (JNull, rest)"
  by simp

lemma parseValue_true: "parseValue (Suc n) (''true'' @ rest) = Some (JBool True, rest)"
  by simp

lemma parseValue_false: "parseValue (Suc n) (''false'' @ rest) = Some (JBool False, rest)"
  by simp

lemma parseValue_string:
  "parseChars cs = Some (str, rest) \<Longrightarrow> parseValue (Suc n) (DQUOTE # cs) = Some (JStr str, rest)"
  by simp

lemma parseValue_number:
  assumes "parseNumber (c # cs) = Some (i, rest)" and "isDigit c \<or> c = CHR ''-''"
  shows "parseValue (Suc n) (c # cs) = Some (JNum i, rest)"
proof -
  have "c \<noteq> CHR ''['' \<and> c \<noteq> CHR ''{'' \<and> c \<noteq> DQUOTE \<and> c \<noteq> CHR ''n'' \<and> c \<noteq> CHR ''t''
      \<and> c \<noteq> CHR ''f''"
    using assms(2) isDigit_start [of c] by auto
  with assms(1) show ?thesis by simp
qed

lemma parseValue_empty_array: "parseValue (Suc n) (''[]'' @ rest) = Some (JArr [], rest)"
  by (simp add: skipSpace_nonspace isJsonSpace_def)

lemma parseValue_empty_object: "parseValue (Suc n) (''{}'' @ rest) = Some (JObj [], rest)"
  by (simp add: skipSpace_nonspace isJsonSpace_def)

lemma parseValue_array:
  "skipSpace cs = d # r \<Longrightarrow> d \<noteq> CHR '']'' \<Longrightarrow> parseElements n cs = Some (vs, rest) \<Longrightarrow>
   parseValue (Suc n) (CHR ''['' # cs) = Some (JArr vs, rest)"
  by simp

lemma parseValue_object:
  "skipSpace cs = d # r \<Longrightarrow> d \<noteq> CHR ''}'' \<Longrightarrow> parseMembers n cs = Some (ps, rest) \<Longrightarrow>
   parseValue (Suc n) (CHR ''{'' # cs) = Some (JObj ps, rest)"
  by simp

lemma parseElements_last:
  "parseValue n (skipSpace s) = Some (v, r) \<Longrightarrow> skipSpace r = CHR '']'' # r' \<Longrightarrow>
   parseElements (Suc n) s = Some ([v], r')"
  by simp

lemma parseElements_more:
  "parseValue n (skipSpace s) = Some (v, r) \<Longrightarrow> skipSpace r = COMMA # r' \<Longrightarrow>
   parseElements n r' = Some (vs, rest) \<Longrightarrow> parseElements (Suc n) s = Some (v # vs, rest)"
  by simp

lemma parseMembers_last:
  "skipSpace s = DQUOTE # s1 \<Longrightarrow> parseChars s1 = Some (k, s2) \<Longrightarrow>
   skipSpace s2 = CHR '':'' # s3 \<Longrightarrow> parseValue n (skipSpace s3) = Some (v, r) \<Longrightarrow>
   skipSpace r = CHR ''}'' # r' \<Longrightarrow> parseMembers (Suc n) s = Some ([(k, v)], r')"
  by simp

lemma parseMembers_more:
  "skipSpace s = DQUOTE # s1 \<Longrightarrow> parseChars s1 = Some (k, s2) \<Longrightarrow>
   skipSpace s2 = CHR '':'' # s3 \<Longrightarrow> parseValue n (skipSpace s3) = Some (v, r) \<Longrightarrow>
   skipSpace r = COMMA # r' \<Longrightarrow> parseMembers n r' = Some (ps, rest) \<Longrightarrow>
   parseMembers (Suc n) s = Some ((k, v) # ps, rest)"
  by simp

declare parseValue.simps [simp del] parseElements.simps [simp del] parseMembers.simps [simp del]

lemma okRest_simps: "okRest (LF # s)" "okRest (COMMA # s)" "okRest []"
  by (simp_all add: okRest_def isDigit_def digitValue_def)

lemma parseElements_texts:
  assumes IH: "\<And>v rest n. v \<in> set vs \<Longrightarrow> okRest rest \<Longrightarrow> length (stringify ind' v) < n \<Longrightarrow>
                parseValue n (stringify ind' v @ rest) = Some (v, rest)"
    and ind: "set ind \<subseteq> {CHR '' ''}" "set ind' \<subseteq> {CHR '' ''}"
    and ne: "vs \<noteq> []"
    and len: "length (LF # ind' @ join (COMMA # LF # ind') (map (stringify ind') vs)
                @ LF # ind @ '']'') < n"
  shows "parseElements n (LF # ind' @ join (COMMA # LF # ind') (map (stringify ind') vs)
            @ LF # ind @ '']'' @ rest) = Some (vs, rest)"
  using IH ne len
proof (induction vs arbitrary: n)
  case Nil
  then show ?case by simp
next
  case (Cons v vs)
  obtain m where n: "n = Suc m" using Cons.prems(3) by (cases n) auto
  have pv: "\<And>r. okRest r \<Longrightarrow> length (stringify ind' v) < m \<Longrightarrow>
      parseValue m (stringify ind' v @ r) = Some (v, r)"
    using Cons.prems(1) by simp
  show ?case
  proof (cases vs)
    case Nil
    have lenv: "length (stringify ind' v) < m"
      using Cons.prems(3) n Nil by simp
    have sk: "skipSpace (LF # ind' @ stringify ind' v @ LF # ind @ '']'' @ rest)
        = stringify ind' v @ LF # ind @ '']'' @ rest"
      by (simp add: skipSpace_LF skipSpace_indent [OF ind(2)] skipSpace_stringify)
    have "parseElements (Suc m) (LF # ind' @ stringify ind' v @ LF # ind @ '']'' @ rest)
        = Some ([v], rest)"
    proof (rule parseElements_last)
      show "parseValue m (skipSpace (LF # ind' @ stringify ind' v @ LF # ind @ '']'' @ rest))
          = Some (v, LF # ind @ '']'' @ rest)"
        unfolding sk by (rule pv) (simp_all add: okRest_simps lenv)
      show "skipSpace (LF # ind @ '']'' @ rest) = CHR '']'' # rest"
        by (simp add: skipSpace_LF skipSpace_indent [OF ind(1)] skipSpace_nonspace
            isJsonSpace_def)
    qed
    with n Nil show ?thesis by simp
  next
    case (Cons w ws)
    let ?tail = "LF # ind' @ join (COMMA # LF # ind') (map (stringify ind') vs)
                   @ LF # ind @ '']'' @ rest"
    have whole: "LF # ind' @ join (COMMA # LF # ind') (map (stringify ind') (v # vs))
                   @ LF # ind @ '']'' @ rest
               = LF # ind' @ stringify ind' v @ COMMA # ?tail"
      using Cons by simp
    have lenv: "length (stringify ind' v) < m"
      using Cons.prems(3) n Cons by simp
    have lent: "length (LF # ind' @ join (COMMA # LF # ind') (map (stringify ind') vs)
                  @ LF # ind @ '']'') < m"
      using Cons.prems(3) n Cons by simp
    have sk: "skipSpace (LF # ind' @ stringify ind' v @ COMMA # ?tail)
        = stringify ind' v @ COMMA # ?tail"
      by (simp add: skipSpace_LF skipSpace_indent [OF ind(2)] skipSpace_stringify)
    have "parseElements (Suc m) (LF # ind' @ stringify ind' v @ COMMA # ?tail)
        = Some (v # vs, rest)"
    proof (rule parseElements_more)
      show "parseValue m (skipSpace (LF # ind' @ stringify ind' v @ COMMA # ?tail))
          = Some (v, COMMA # ?tail)"
        unfolding sk by (rule pv) (simp_all add: okRest_simps lenv)
      show "skipSpace (COMMA # ?tail) = COMMA # ?tail"
        by (simp add: skipSpace_nonspace isJsonSpace_def)
      show "parseElements m ?tail = Some (vs, rest)"
        using Cons.IH [of m] Cons.prems(1) Cons lent by simp
    qed
    with n whole show ?thesis by simp
  qed
qed

lemma parseMembers_texts:
  assumes IH: "\<And>p rest n. p \<in> set ps \<Longrightarrow> okRest rest \<Longrightarrow> length (stringify ind' (snd p)) < n \<Longrightarrow>
                parseValue n (stringify ind' (snd p) @ rest) = Some (snd p, rest)"
    and ind: "set ind \<subseteq> {CHR '' ''}" "set ind' \<subseteq> {CHR '' ''}"
    and ne: "ps \<noteq> []"
    and len: "length (LF # ind' @ join (COMMA # LF # ind')
                (map (\<lambda>p. quoteJSONString (fst p) @ '': '' @ stringify ind' (snd p)) ps)
                @ LF # ind @ ''}'') < n"
  shows "parseMembers n (LF # ind' @ join (COMMA # LF # ind')
            (map (\<lambda>p. quoteJSONString (fst p) @ '': '' @ stringify ind' (snd p)) ps)
            @ LF # ind @ ''}'' @ rest) = Some (ps, rest)"
  using IH ne len
proof (induction ps arbitrary: n)
  case Nil
  then show ?case by simp
next
  case (Cons p ps)
  obtain k v where p: "p = (k, v)" by (cases p)
  obtain m where n: "n = Suc m" using Cons.prems(3) by (cases n) auto
  let ?f = "\<lambda>p. quoteJSONString (fst p) @ '': '' @ stringify ind' (snd p)"
  have pv: "\<And>r. okRest r \<Longrightarrow> length (stringify ind' v) < m \<Longrightarrow>
      parseValue m (stringify ind' v @ r) = Some (v, r)"
    using Cons.prems(1) [of p] p by simp
  have key: "\<And>r. skipSpace (LF # ind' @ ?f p @ r)
      = DQUOTE # (concat (map quoteChar k) @ DQUOTE # (CHR '':'' # CHR '' '' # stringify ind' v @ r))"
    by (simp add: p skipSpace_LF skipSpace_indent [OF ind(2)] quoteJSONString_def
        skipSpace_nonspace isJsonSpace_def)
  have colon: "\<And>r. skipSpace (CHR '':'' # CHR '' '' # stringify ind' v @ r)
      = CHR '':'' # (CHR '' '' # stringify ind' v @ r)"
    by (simp add: skipSpace_nonspace isJsonSpace_def)
  have val: "\<And>r. skipSpace (CHR '' '' # stringify ind' v @ r) = stringify ind' v @ r"
    by (simp add: skipSpace_SP skipSpace_stringify)
  show ?case
  proof (cases ps)
    case Nil
    have lenv: "length (stringify ind' v) < m"
      using Cons.prems(3) n Nil p by simp
    have "parseMembers (Suc m) (LF # ind' @ ?f p @ (LF # ind @ ''}'' @ rest))
        = Some ([(k, v)], rest)"
    proof (rule parseMembers_last)
      show "skipSpace (LF # ind' @ ?f p @ (LF # ind @ ''}'' @ rest))
          = DQUOTE # (concat (map quoteChar k) @ DQUOTE
              # (CHR '':'' # CHR '' '' # stringify ind' v @ (LF # ind @ ''}'' @ rest)))"
        by (rule key)
      show "parseChars (concat (map quoteChar k) @ DQUOTE
              # (CHR '':'' # CHR '' '' # stringify ind' v @ (LF # ind @ ''}'' @ rest)))
          = Some (k, CHR '':'' # CHR '' '' # stringify ind' v @ (LF # ind @ ''}'' @ rest))"
        by (rule parseChars_quoted)
      show "skipSpace (CHR '':'' # CHR '' '' # stringify ind' v @ (LF # ind @ ''}'' @ rest))
          = CHR '':'' # (CHR '' '' # stringify ind' v @ (LF # ind @ ''}'' @ rest))"
        by (rule colon)
      show "parseValue m (skipSpace (CHR '' '' # stringify ind' v @ (LF # ind @ ''}'' @ rest)))
          = Some (v, LF # ind @ ''}'' @ rest)"
        unfolding val by (rule pv) (simp_all add: okRest_simps lenv)
      show "skipSpace (LF # ind @ ''}'' @ rest) = CHR ''}'' # rest"
        by (simp add: skipSpace_LF skipSpace_indent [OF ind(1)] skipSpace_nonspace
            isJsonSpace_def)
    qed
    with n Nil p show ?thesis by simp
  next
    case (Cons q qs)
    let ?tail = "LF # ind' @ join (COMMA # LF # ind') (map ?f ps) @ LF # ind @ ''}'' @ rest"
    have whole: "LF # ind' @ join (COMMA # LF # ind') (map ?f (p # ps)) @ LF # ind @ ''}'' @ rest
               = LF # ind' @ ?f p @ (COMMA # ?tail)"
      using Cons by simp
    have lenv: "length (stringify ind' v) < m"
      using Cons.prems(3) n Cons p by simp
    have lent: "length (LF # ind' @ join (COMMA # LF # ind') (map ?f ps) @ LF # ind @ ''}'') < m"
      using Cons.prems(3) n Cons by simp
    have "parseMembers (Suc m) (LF # ind' @ ?f p @ (COMMA # ?tail)) = Some ((k, v) # ps, rest)"
    proof (rule parseMembers_more)
      show "skipSpace (LF # ind' @ ?f p @ (COMMA # ?tail))
          = DQUOTE # (concat (map quoteChar k) @ DQUOTE
              # (CHR '':'' # CHR '' '' # stringify ind' v @ (COMMA # ?tail)))"
        by (rule key)
      show "parseChars (concat (map quoteChar k) @ DQUOTE
              # (CHR '':'' # CHR '' '' # stringify ind' v @ (COMMA # ?tail)))
          = Some (k, CHR '':'' # CHR '' '' # stringify ind' v @ (COMMA # ?tail))"
        by (rule parseChars_quoted)
      show "skipSpace (CHR '':'' # CHR '' '' # stringify ind' v @ (COMMA # ?tail))
          = CHR '':'' # (CHR '' '' # stringify ind' v @ (COMMA # ?tail))"
        by (rule colon)
      show "parseValue m (skipSpace (CHR '' '' # stringify ind' v @ (COMMA # ?tail)))
          = Some (v, COMMA # ?tail)"
        unfolding val by (rule pv) (simp_all add: okRest_simps lenv)
      show "skipSpace (COMMA # ?tail) = COMMA # ?tail"
        by (simp add: skipSpace_nonspace isJsonSpace_def)
      show "parseMembers m ?tail = Some (ps, rest)"
        using Cons.IH [of m] Cons.prems(1) Cons lent by simp
    qed
    with n whole p show ?thesis by simp
  qed
qed

lemma parseValue_stringify:
  "set ind \<subseteq> {CHR '' ''} \<Longrightarrow> okRest rest \<Longrightarrow> length (stringify ind v) < n \<Longrightarrow>
   parseValue n (stringify ind v @ rest) = Some (v, rest)"
proof (induction v arbitrary: ind rest n)
  case JNull
  then obtain m where "n = Suc m" by (cases n) auto
  then show ?case using parseValue_null [of m rest] by simp
next
  case (JBool b)
  then obtain m where "n = Suc m" by (cases n) auto
  then show ?case using parseValue_true [of m rest] parseValue_false [of m rest] by simp
next
  case (JNum i)
  then obtain m where n: "n = Suc m" by (cases n) auto
  obtain c t where ct: "natToString (nat (if i < 0 then - i else i)) = c # t" "isDigit c"
    using natToString_start by blast
  have start: "\<exists>c cs. intToString i @ rest = c # cs \<and> (isDigit c \<or> c = CHR ''-'')"
    using ct by (auto simp: intToString_def)
  then obtain c cs where ccs: "intToString i @ rest = c # cs" "isDigit c \<or> c = CHR ''-''"
    by blast
  have "parseNumber (c # cs) = Some (i, rest)"
    using parseNumber_intToString [OF JNum.prems(2), of i] ccs(1) by simp
  from parseValue_number [OF this ccs(2), of m] show ?case
    using ccs(1) n by simp
next
  case (JStr s)
  then obtain m where n: "n = Suc m" by (cases n) auto
  have "parseValue (Suc m) (DQUOTE # (concat (map quoteChar s) @ DQUOTE # rest))
      = Some (JStr s, rest)"
    by (rule parseValue_string) (rule parseChars_quoted)
  with n show ?case by (simp add: quoteJSONString_def)
next
  case (JArr vs)
  then obtain m where n: "n = Suc m" by (cases n) auto
  show ?case
  proof (cases "vs = []")
    case True
    with n show ?thesis using parseValue_empty_array [of m rest] by simp
  next
    case False
    let ?ind' = "ind @ ''  ''"
    let ?body = "LF # ?ind' @ join (COMMA # LF # ?ind') (map (stringify ?ind') vs)
                   @ LF # ind @ '']'' @ rest"
    have ind': "set ?ind' \<subseteq> {CHR '' ''}" using JArr.prems(1) by auto
    obtain v ws where vs: "vs = v # ws" using False by (cases vs) auto
    obtain c t where ct: "stringify ?ind' v = c # t" "\<not> isJsonSpace c" "c \<noteq> CHR '']''"
      using stringify_start [of ?ind' v] by blast
    have "\<exists>r. skipSpace ?body = c # r"
      using ct vs by (cases ws)
        (simp_all add: skipSpace_LF skipSpace_indent [OF JArr.prems(1)] skipSpace_SP
          skipSpace_nonspace)
    then obtain r where sk: "skipSpace ?body = c # r" by blast
    have len: "length (LF # ?ind' @ join (COMMA # LF # ?ind') (map (stringify ?ind') vs)
                  @ LF # ind @ '']'') < m"
      using JArr.prems(3) n False by simp
    have els: "parseElements m ?body = Some (vs, rest)"
      by (rule parseElements_texts [OF _ JArr.prems(1) ind' False len])
         (rule JArr.IH, use JArr.prems(1) in simp_all)
    have "parseValue (Suc m) (CHR ''['' # ?body) = Some (JArr vs, rest)"
      by (rule parseValue_array [OF sk ct(3) els])
    with n False show ?thesis by simp
  qed
next
  case (JObj ps)
  then obtain m where n: "n = Suc m" by (cases n) auto
  show ?case
  proof (cases "ps = []")
    case True
    with n show ?thesis using parseValue_empty_object [of m rest] by simp
  next
    case False
    let ?ind' = "ind @ ''  ''"
    let ?f = "\<lambda>p. quoteJSONString (fst p) @ '': '' @ stringify ?ind' (snd p)"
    let ?body = "LF # ?ind' @ join (COMMA # LF # ?ind') (map ?f ps) @ LF # ind @ ''}'' @ rest"
    have ind': "set ?ind' \<subseteq> {CHR '' ''}" using JObj.prems(1) by auto
    obtain p qs where ps: "ps = p # qs" using False by (cases ps) auto
    have "\<exists>r. skipSpace ?body = DQUOTE # r"
      using ps by (cases qs)
        (simp_all add: skipSpace_LF skipSpace_indent [OF JObj.prems(1)] skipSpace_SP
          skipSpace_nonspace quoteJSONString_def isJsonSpace_def)
    then obtain r where sk: "skipSpace ?body = DQUOTE # r" by blast
    have len: "length (LF # ?ind' @ join (COMMA # LF # ?ind') (map ?f ps) @ LF # ind @ ''}'') < m"
      using JObj.prems(3) n False by simp
    have IH': "\<And>p rest n. p \<in> set ps \<Longrightarrow> okRest rest \<Longrightarrow>
        length (stringify ?ind' (snd p)) < n \<Longrightarrow>
        parseValue n (stringify ?ind' (snd p) @ rest) = Some (snd p, rest)"
    proof -
      fix p rest n
      assume "p \<in> set ps" "okRest rest" "length (stringify ?ind' (snd p)) < n"
      moreover have "snd p \<in> Basic_BNFs.snds p" by (cases p) simp
      ultimately show "parseValue n (stringify ?ind' (snd p) @ rest) = Some (snd p, rest)"
        using JObj.IH [of p "snd p" ?ind' rest n] ind' by simp
    qed
    have mem: "parseMembers m ?body = Some (ps, rest)"
      by (rule parseMembers_texts [OF IH' JObj.prems(1) ind' False len])
    have "parseValue (Suc m) (CHR ''{'' # ?body) = Some (JObj ps, rest)"
      by (rule parseValue_object [OF sk _ mem]) simp
    with n False show ?thesis by simp
  qed
qed

lemma JSON_parse_stringify: "JSON_parse (JSON_stringify v) = Inr v"
proof -
  have "parseValue (Suc (length (stringify [] v))) (stringify [] v @ []) = Some (v, [])"
    by (rule parseValue_stringify) (simp_all add: okRest_simps)
  then show ?thesis
    using skipSpace_stringify [of "[]" v "[]"]
    by (simp add: JSON_parse_def JSON_stringify_def skipSpace_def)
qed

subsection \<open>\<open>findIndex\<close>\<close>

lemma findIndexE_range:
  "findIndexE p xs = Inr i \<Longrightarrow> i = -1 \<or> (0 \<le> i \<and> i < int (length xs))"
proof (induction xs arbitrary: i)
  case Nil
  then show ?case by simp
next
  case (Cons x xs)
  show ?case
  proof (cases "p x")
    case (Inl e)
    with Cons.prems show ?thesis by simp
  next
    case (Inr b)
    show ?thesis
    proof (cases b)
      case True
      with Inr Cons.prems show ?thesis by auto
    next
      case False
      with Inr Cons.prems obtain j where j: "findIndexE p xs = Inr j"
        "i = (if j = -1 then -1 else j + 1)"
        by (auto split: sum.splits)
      from Cons.IH [OF j(1)] j(2) show ?thesis by auto
    qed
  qed
qed

lemma findIndexE_Cons_False:
  "p x = Inr False \<Longrightarrow>
   findIndexE p (x # xs) =
     (case findIndexE p xs of Inl e \<Rightarrow> Inl e | Inr i \<Rightarrow> Inr (if i = -1 then -1 else i + 1))"
  by simp

lemma findIndexE_Cons_True: "p x = Inr True \<Longrightarrow> findIndexE p (x # xs) = Inr 0"
  by simp

lemma findIndexE_Cons_cases:
  assumes "findIndexE p (x # xs) = Inr i"
  obtains (hit) "p x = Inr True" "i = 0"
    | (miss) "p x = Inr False" "findIndexE p xs = Inr (-1)" "i = -1"
    | (later) j where "p x = Inr False" "findIndexE p xs = Inr j" "0 \<le> j" "i = j + 1"
proof (cases "p x")
  case (Inl e)
  with assms show ?thesis by simp
next
  case (Inr b)
  show ?thesis
  proof (cases b)
    case True
    with Inr assms hit show ?thesis by simp
  next
    case False
    with Inr assms obtain j where j: "findIndexE p xs = Inr j"
      "i = (if j = -1 then -1 else j + 1)"
      by (auto split: sum.splits)
    from findIndexE_range [OF j(1)] have "j = -1 \<or> 0 \<le> j" by auto
    then show ?thesis
    proof
      assume "j = -1"
      with j Inr False miss show ?thesis by simp
    next
      assume "0 \<le> j"
      with j Inr False later [of j] show ?thesis by auto
    qed
  qed
qed

lemma findIndexE_hit:
  "findIndexE p xs = Inr i \<Longrightarrow> i \<noteq> -1 \<Longrightarrow> p (xs ! nat i) = Inr True"
proof (induction xs arbitrary: i)
  case Nil
  then show ?case by simp
next
  case (Cons x xs)
  from Cons.prems(1) show ?case
  proof (cases rule: findIndexE_Cons_cases)
    case hit
    then show ?thesis by simp
  next
    case miss
    with Cons.prems(2) show ?thesis by simp
  next
    case (later j)
    with Cons.IH [of j] show ?thesis by (simp add: nat_add_distrib)
  qed
qed

lemma findIndexE_before:
  "findIndexE p xs = Inr i \<Longrightarrow> i \<noteq> -1 \<Longrightarrow> j < nat i \<Longrightarrow> p (xs ! j) = Inr False"
proof (induction xs arbitrary: i j)
  case Nil
  then show ?case by simp
next
  case (Cons x xs)
  from Cons.prems(1) show ?case
  proof (cases rule: findIndexE_Cons_cases)
    case hit
    with Cons.prems(3) show ?thesis by simp
  next
    case miss
    with Cons.prems(2) show ?thesis by simp
  next
    case (later k)
    show ?thesis
    proof (cases j)
      case 0
      with later show ?thesis by simp
    next
      case (Suc j')
      with later Cons.prems(3) have "j' < nat k" by (simp add: nat_add_distrib)
      with Cons.IH [of k j'] later Suc show ?thesis by simp
    qed
  qed
qed

lemma findIndexE_miss:
  "findIndexE p xs = Inr (-1) \<Longrightarrow> x \<in> set xs \<Longrightarrow> p x = Inr False"
proof (induction xs)
  case Nil
  then show ?case by simp
next
  case (Cons y ys)
  from Cons.prems(1) show ?case
  proof (cases rule: findIndexE_Cons_cases)
    case hit
    then show ?thesis by simp
  next
    case miss
    with Cons show ?thesis by auto
  next
    case (later j)
    then show ?thesis by simp
  qed
qed

lemma findIndexE_update:
  "findIndexE p xs = Inr i \<Longrightarrow> i \<noteq> -1 \<Longrightarrow> p y = Inr True \<Longrightarrow>
   findIndexE p (xs[nat i := y]) = Inr i"
proof (induction xs arbitrary: i)
  case Nil
  then show ?case by simp
next
  case (Cons x xs)
  from Cons.prems(1) show ?case
  proof (cases rule: findIndexE_Cons_cases)
    case hit
    with Cons.prems(3) show ?thesis by simp
  next
    case miss
    with Cons.prems(2) show ?thesis by simp
  next
    case (later j)
    then have "nat i = Suc (nat j)" by (simp add: nat_add_distrib)
    with later Cons.IH [of j] Cons.prems(3) show ?thesis by simp
  qed
qed

lemma findIndexE_append:
  "findIndexE p xs = Inr (-1) \<Longrightarrow> p y = Inr True \<Longrightarrow>
   findIndexE p (xs @ [y]) = Inr (int (length xs))"
proof (induction xs)
  case Nil
  then show ?case by simp
next
  case (Cons x xs)
  from Cons.prems(1) show ?case
  proof (cases rule: findIndexE_Cons_cases)
    case hit
    then show ?thesis by simp
  next
    case miss
    with Cons show ?thesis by simp
  next
    case (later j)
    then show ?thesis by simp
  qed
qed

lemma findIndexE_total:
  "(\<And>x. x \<in> set xs \<Longrightarrow> \<exists>b. p x = Inr b) \<Longrightarrow> \<exists>i. findIndexE p xs = Inr i"
proof (induction xs)
  case Nil
  show ?case by simp
next
  case (Cons x xs)
  from Cons.prems [of x] obtain b where b: "p x = Inr b" by auto
  from Cons.IH Cons.prems obtain i where i: "findIndexE p xs = Inr i" by auto
  from b i show ?case by (cases b) simp_all
qed

lemma findIndexE_found_iff:
  assumes "findIndexE p xs = Inr i"
  shows "i \<noteq> -1 \<longleftrightarrow> (\<exists>x \<in> set xs. p x = Inr True)"
proof
  assume ne: "i \<noteq> -1"
  with findIndexE_range [OF assms] have "nat i < length xs" by auto
  with findIndexE_hit [OF assms ne] show "\<exists>x \<in> set xs. p x = Inr True"
    using nth_mem by blast
next
  assume "\<exists>x \<in> set xs. p x = Inr True"
  then obtain x where x: "x \<in> set xs" "p x = Inr True" by blast
  show "i \<noteq> -1"
  proof
    assume "i = -1"
    with assms findIndexE_miss [of p xs x] x show False by simp
  qed
qed

lemma findIndexE_pure: "findIndexE (\<lambda>x. Inr (p x)) xs = Inr (findIndex p xs)"
  by (induction xs) (simp_all add: Let_def)

subsection \<open>The JSON branch\<close>

lemma newEntry_date [simp]: "map_of (rev (newEntry s c k t cl d)) ''date'' = Some (JStr d)"
  by (simp add: newEntry_def)

lemma entryDate_newEntry:
  "entryDate (JObj (newEntry s c k t cl d)) = Inr (Some (JStr d))"
  by simp

lemma upsertJson_array:
  "upsertJson (JArr es) entry d =
     (case findIndexE (\<lambda>e. case entryDate e of Inl err \<Rightarrow> Inl err
                            | Inr v \<Rightarrow> Inr (v = Some (JStr d))) es of
        Inl err \<Rightarrow> Inl err
      | Inr i \<Rightarrow> if i \<noteq> -1 then Inr (JArr (es[nat i := JObj entry]))
                 else Inr (JArr (es @ [JObj entry])))"
  by (simp add: upsertJson_def)

lemma upsertJson_Inr_array: "upsertJson data entry d = Inr data' \<Longrightarrow> \<exists>es. data = JArr es"
  by (cases data) (simp_all add: upsertJson_def)

lemma upsertJson_cases:
  assumes "upsertJson data (newEntry s c k t cl d) d = Inr data'"
  obtains (replaced) es i where "data = JArr es"
      "findIndexE (\<lambda>e. case entryDate e of Inl err \<Rightarrow> Inl err
                       | Inr v \<Rightarrow> Inr (v = Some (JStr d))) es = Inr i"
      "i \<noteq> -1" "nat i < length es"
      "data' = JArr (es[nat i := JObj (newEntry s c k t cl d)])"
    | (appended) es where "data = JArr es"
      "findIndexE (\<lambda>e. case entryDate e of Inl err \<Rightarrow> Inl err
                       | Inr v \<Rightarrow> Inr (v = Some (JStr d))) es = Inr (-1)"
      "data' = JArr (es @ [JObj (newEntry s c k t cl d)])"
proof -
  let ?p = "\<lambda>e. case entryDate e of Inl err \<Rightarrow> Inl err | Inr v \<Rightarrow> Inr (v = Some (JStr d))"
  from upsertJson_Inr_array [OF assms] obtain es where es: "data = JArr es" by blast
  with assms obtain i where i: "findIndexE ?p es = Inr i"
    by (auto simp: upsertJson_array split: sum.splits)
  show ?thesis
  proof (cases "i = -1")
    case True
    with assms es i appended show ?thesis by (simp add: upsertJson_array)
  next
    case False
    moreover from findIndexE_range [OF i] False have "nat i < length es" by auto
    ultimately show ?thesis using assms es i replaced by (simp add: upsertJson_array)
  qed
qed

lemma upsertJson_idempotent:
  assumes "upsertJson data (newEntry s c k t cl d) d = Inr data'"
  shows "upsertJson data' (newEntry s c k t cl d) d = Inr data'"
proof -
  let ?p = "\<lambda>e. case entryDate e of Inl err \<Rightarrow> Inl err | Inr v \<Rightarrow> Inr (v = Some (JStr d))"
  let ?new = "JObj (newEntry s c k t cl d)"
  have new: "?p ?new = Inr True" by (simp add: newEntry_def)
  from assms show ?thesis
  proof (cases rule: upsertJson_cases)
    case (replaced es i)
    from findIndexE_update [OF replaced(2,3) new]
    show ?thesis using replaced by (simp add: upsertJson_array)
  next
    case (appended es)
    from findIndexE_append [OF appended(2) new]
    show ?thesis using appended by (simp add: upsertJson_array)
  qed
qed

lemma generateFileContent_json:
  "generateFileContent (Some file) s c k t cl d ''json'' =
     (case JSON_parse file of
        Inl err \<Rightarrow> Inl (UnableToGenerate err)
      | Inr data \<Rightarrow>
          (case upsertJson data (newEntry s c k t cl d) d of
             Inl err \<Rightarrow> Inl (UnableToGenerate err)
           | Inr data' \<Rightarrow> Inr (Some (JSON_stringify data'))))"
  by (simp add: generateFileContent_def)

lemma generateFileContent_json_Inr:
  assumes "generateFileContent (Some file) s c k t cl d ''json'' = Inr result"
  obtains data data' where "JSON_parse file = Inr data"
    "upsertJson data (newEntry s c k t cl d) d = Inr data'"
    "result = Some (JSON_stringify data')"
  using assms by (auto simp: generateFileContent_json split: sum.splits)

lemma generateFileContent_json_idempotent:
  assumes "generateFileContent (Some file) s c k t cl d ''json'' = Inr (Some file')"
  shows "generateFileContent (Some file') s c k t cl d ''json'' = Inr (Some file')"
proof -
  from assms obtain data data' where *: "JSON_parse file = Inr data"
    "upsertJson data (newEntry s c k t cl d) d = Inr data'" "file' = JSON_stringify data'"
    by (auto elim: generateFileContent_json_Inr)
  from upsertJson_idempotent [OF *(2)] *(3) show ?thesis
    by (simp add: generateFileContent_json JSON_parse_stringify)
qed

subsection \<open>Lines\<close>

lemma split_nonempty: "split sep s \<noteq> []"
  by (induction s) (auto split: list.splits)

lemma split_no_sep: "l \<in> set (split sep s) \<Longrightarrow> sep \<notin> set l"
proof (induction s arbitrary: l)
  case Nil
  then show ?case by simp
next
  case (Cons c cs)
  show ?case
  proof (cases "c = sep")
    case True
    with Cons show ?thesis by auto
  next
    case False
    obtain m ms where ms: "split sep cs = m # ms"
      using split_nonempty [of sep cs] by (cases "split sep cs") auto
    with Cons.prems False have "l = c # m \<or> l \<in> set ms" by simp
    then show ?thesis
    proof
      assume "l = c # m"
      moreover have "sep \<notin> set m" using Cons.IH [of m] ms by simp
      ultimately show ?thesis using False by simp
    next
      assume "l \<in> set ms"
      with Cons.IH [of l] ms show ?thesis by simp
    qed
  qed
qed

lemma split_single: "sep \<notin> set l \<Longrightarrow> split sep l = [l]"
  by (induction l) auto

lemma split_append: "sep \<notin> set l \<Longrightarrow> split sep (l @ sep # r) = l # split sep r"
  by (induction l) auto

lemma split_join:
  "ls \<noteq> [] \<Longrightarrow> (\<And>l. l \<in> set ls \<Longrightarrow> sep \<notin> set l) \<Longrightarrow> split sep (join [sep] ls) = ls"
proof (induction ls)
  case Nil
  then show ?case by simp
next
  case (Cons l ls)
  show ?case
  proof (cases ls)
    case Nil
    with Cons.prems show ?thesis by (simp add: split_single)
  next
    case (Cons m ms)
    have "split sep (l @ sep # join [sep] ls) = l # split sep (join [sep] ls)"
      using Cons.prems by (intro split_append) simp
    moreover have "split sep (join [sep] ls) = ls"
      using Cons Cons.prems by (intro Cons.IH) simp_all
    ultimately show ?thesis using Cons by simp
  qed
qed

lemma trim_empty_iff: "trim l = [] \<longleftrightarrow> (\<forall>c \<in> set l. isWhiteSpace c)"
proof
  assume "trim l = []"
  then have all: "\<forall>c \<in> set (dropWhile isWhiteSpace l). isWhiteSpace c"
    by (simp add: trim_def)
  have "dropWhile isWhiteSpace l = []"
  proof (rule ccontr)
    assume ne: "dropWhile isWhiteSpace l \<noteq> []"
    then have "\<not> isWhiteSpace (hd (dropWhile isWhiteSpace l))" by (rule hd_dropWhile)
    moreover have "hd (dropWhile isWhiteSpace l) \<in> set (dropWhile isWhiteSpace l)"
      using ne by simp
    ultimately show False using all by blast
  qed
  then show "\<forall>c \<in> set l. isWhiteSpace c" by simp
next
  assume "\<forall>c \<in> set l. isWhiteSpace c"
  then show "trim l = []" by (auto simp: trim_def dest: set_dropWhileD)
qed

lemma csvLinesOf_lines:
  assumes "l \<in> set (csvLinesOf text)"
  shows "LF \<notin> set l" and "trim l \<noteq> []"
  using assms split_no_sep [of l "LF" "text"] by (auto simp: csvLinesOf_def)

lemma csvLinesOf_join:
  assumes "\<And>l. l \<in> set ls \<Longrightarrow> LF \<notin> set l \<and> trim l \<noteq> []"
  shows "csvLinesOf (join [LF] ls) = ls"
proof (cases "ls = []")
  case True
  then show ?thesis by (simp add: csvLinesOf_def trim_def)
next
  case False
  then have "split LF (join [LF] ls) = ls" using assms by (intro split_join) auto
  moreover have "filter (\<lambda>line. trim line \<noteq> []) ls = ls" using assms by (simp add: filter_id_conv)
  ultimately show ?thesis by (simp add: csvLinesOf_def)
qed

subsection \<open>The CSV branch\<close>

lemma intToString_int: "intToString (int n) = natToString n"
  by (simp add: intToString_def)

lemma csvLineOf_newEntry:
  "csvLineOf (newEntry s c k t cl d) =
     d @ COMMA # natToString s @ COMMA # natToString c @ COMMA # natToString k
       @ COMMA # natToString (count t) @ COMMA # natToString (uniques t)
       @ COMMA # natToString (count cl) @ COMMA # natToString (uniques cl)"
  by (simp add: csvLineOf_def csvHeaders_def newEntry_def intToString_int)

lemma startsWith_append: "startsWith (p @ r) p"
  by (induction p) simp_all

lemma startsWith_iff: "startsWith s p \<longleftrightarrow> (\<exists>r. s = p @ r)"
proof (induction s p rule: startsWith.induct)
  case (1 s)
  then show ?case by simp
next
  case (2 p ps)
  then show ?case by simp
next
  case (3 c cs p ps)
  then show ?case by auto
qed

lemma isDigit_not_special: "isDigit c \<Longrightarrow> c \<noteq> LF \<and> c \<noteq> COMMA \<and> \<not> isWhiteSpace c"
  by (auto simp: isDigit_def digitValue_def isWhiteSpace_def split: if_splits)

lemma natToString_no_LF: "LF \<notin> set (natToString n)"
  using natToString_digits [of n] isDigit_not_special by blast

lemma csvLine_good:
  assumes "LF \<notin> set d"
  shows "LF \<notin> set (csvLineOf (newEntry s c k t cl d))"
    and "trim (csvLineOf (newEntry s c k t cl d)) \<noteq> []"
    and "startsWith (csvLineOf (newEntry s c k t cl d)) d"
proof -
  show "LF \<notin> set (csvLineOf (newEntry s c k t cl d))"
    using assms by (simp add: csvLineOf_newEntry natToString_no_LF)
  have "COMMA \<in> set (csvLineOf (newEntry s c k t cl d))"
    by (simp add: csvLineOf_newEntry)
  moreover have "\<not> isWhiteSpace COMMA" by (simp add: isWhiteSpace_def)
  ultimately show "trim (csvLineOf (newEntry s c k t cl d)) \<noteq> []"
    unfolding trim_empty_iff by blast
  show "startsWith (csvLineOf (newEntry s c k t cl d)) d"
    unfolding csvLineOf_newEntry by (rule startsWith_append)
qed

lemma findIndex_range: "findIndex p xs = -1 \<or> (0 \<le> findIndex p xs \<and> findIndex p xs < int (length xs))"
  using findIndexE_range [OF findIndexE_pure] by blast

lemma findIndex_hit: "findIndex p xs \<noteq> -1 \<Longrightarrow> p (xs ! nat (findIndex p xs))"
  using findIndexE_hit [OF findIndexE_pure, of p xs] by simp

lemma findIndex_before: "findIndex p xs \<noteq> -1 \<Longrightarrow> j < nat (findIndex p xs) \<Longrightarrow> \<not> p (xs ! j)"
  using findIndexE_before [OF findIndexE_pure, of p xs j] by simp

lemma findIndex_miss: "findIndex p xs = -1 \<Longrightarrow> x \<in> set xs \<Longrightarrow> \<not> p x"
  using findIndexE_miss [of "\<lambda>x. Inr (p x)" xs x] by (simp add: findIndexE_pure)

lemma findIndex_update:
  "findIndex p xs \<noteq> -1 \<Longrightarrow> p y \<Longrightarrow> findIndex p (xs[nat (findIndex p xs) := y]) = findIndex p xs"
  using findIndexE_update [OF findIndexE_pure, of p xs y] by (simp add: findIndexE_pure)

lemma findIndex_append:
  "findIndex p xs = -1 \<Longrightarrow> p y \<Longrightarrow> findIndex p (xs @ [y]) = int (length xs)"
  using findIndexE_append [of "\<lambda>x. Inr (p x)" xs y] by (simp add: findIndexE_pure)

lemma findIndex_found_iff: "findIndex p xs \<noteq> -1 \<longleftrightarrow> (\<exists>x \<in> set xs. p x)"
  using findIndexE_found_iff [OF findIndexE_pure, of p xs] by simp

lemma upsertCsv_idempotent:
  assumes "startsWith line d"
  shows "upsertCsv (upsertCsv ls line d) line d = upsertCsv ls line d"
proof (cases "findIndex (\<lambda>l. startsWith l d) ls = -1")
  case True
  from findIndex_append [OF True, of line] assms
  show ?thesis using True by (simp add: upsertCsv_def Let_def)
next
  case False
  from findIndex_update [OF False, of line] assms
  show ?thesis using False by (simp add: upsertCsv_def Let_def)
qed

lemma set_upsertCsv: "set (upsertCsv ls line d) \<subseteq> insert line (set ls)"
  using set_update_subset_insert [of ls _ line]
  by (auto simp: upsertCsv_def Let_def)

lemma generateFileContent_csv:
  "generateFileContent (Some file) s c k t cl d ''csv'' =
     Inr (Some (join [LF] (upsertCsv (csvLinesOf file) (csvLineOf (newEntry s c k t cl d)) d)))"
  by (simp add: generateFileContent_def)

lemma csvLinesOf_generateFileContent:
  assumes "LF \<notin> set d"
  shows "csvLinesOf (join [LF] (upsertCsv (csvLinesOf file) (csvLineOf (newEntry s c k t cl d)) d))
    = upsertCsv (csvLinesOf file) (csvLineOf (newEntry s c k t cl d)) d"
proof (rule csvLinesOf_join)
  fix l
  assume "l \<in> set (upsertCsv (csvLinesOf file) (csvLineOf (newEntry s c k t cl d)) d)"
  with set_upsertCsv have "l = csvLineOf (newEntry s c k t cl d) \<or> l \<in> set (csvLinesOf file)"
    by blast
  then show "LF \<notin> set l \<and> trim l \<noteq> []"
    using csvLine_good(1,2) [OF assms] csvLinesOf_lines by blast
qed

lemma generateFileContent_csv_idempotent:
  assumes "LF \<notin> set d"
    and "generateFileContent (Some file) s c k t cl d ''csv'' = Inr (Some file')"
  shows "generateFileContent (Some file') s c k t cl d ''csv'' = Inr (Some file')"
proof -
  let ?line = "csvLineOf (newEntry s c k t cl d)"
  from assms(2) have file': "file' = join [LF] (upsertCsv (csvLinesOf file) ?line d)"
    by (simp add: generateFileContent_csv)
  have "csvLinesOf file' = upsertCsv (csvLinesOf file) ?line d"
    unfolding file' by (rule csvLinesOf_generateFileContent [OF assms(1)])
  then show ?thesis
    using upsertCsv_idempotent [OF csvLine_good(3) [OF assms(1)], of "csvLinesOf file" s c k t cl]
    by (simp add: generateFileContent_csv file')
qed

subsection \<open>Date strings\<close>

lemma shaped_length: "shaped p d \<Longrightarrow> length d = length p"
  by (induction p d rule: shaped.induct) auto

lemma shaped_chars:
  "shaped p d \<Longrightarrow> c \<in> set d \<Longrightarrow> isDigit c \<or> (c \<in> set p \<and> c \<noteq> CHR ''d'')"
  by (induction p d rule: shaped.induct) (auto split: if_splits)

lemma shaped_hd:
  "shaped (p # ps) d \<Longrightarrow> d \<noteq> [] \<and> (if p = CHR ''d'' then isDigit (hd d) else hd d = p)"
  by (cases d) auto

lemma isoDate_chars:
  assumes "isoDate d" and "c \<in> set d"
  shows "isDigit c \<or> c = CHR ''-'' \<or> c = CHR ''+''"
  using assms shaped_chars [of "''dddd-dd-dd''" d c] shaped_chars [of "''+dddddd-dd-dd''" d c]
    shaped_chars [of "''-dddddd-dd-dd''" d c]
  by (auto simp: isoDate_def)

lemma isDigit_not_sign: "isDigit c \<Longrightarrow> c \<noteq> CHR ''-'' \<and> c \<noteq> CHR ''+'' \<and> c \<noteq> CHR ''d''"
  by (auto simp: isDigit_def digitValue_def split: if_splits)

lemma isoDate_no_LF: "isoDate d \<Longrightarrow> LF \<notin> set d"
  using isoDate_chars [of d LF] isDigit_not_special [of LF] by auto

lemma isoDate_no_COMMA: "isoDate d \<Longrightarrow> COMMA \<notin> set d"
  using isoDate_chars [of d COMMA] isDigit_not_special [of COMMA] by auto

lemma isoDate_shape:
  assumes "isoDate d"
  shows "d \<noteq> [] \<and> ((length d = 10 \<and> isDigit (hd d))
           \<or> (length d = 13 \<and> (hd d = CHR ''-'' \<or> hd d = CHR ''+'')))"
  using assms shaped_length [of _ d] shaped_hd [of _ _ d]
  by (auto simp: isoDate_def)

lemma isoDate_prefix_free:
  assumes "isoDate d" and "isoDate (d @ r)"
  shows "r = []"
proof -
  from isoDate_shape [OF assms(1)] have d: "d \<noteq> []" by simp
  then have hd: "hd (d @ r) = hd d" by simp
  from isoDate_shape [OF assms(1)] isoDate_shape [OF assms(2)] hd isDigit_not_sign [of "hd d"]
  have "length (d @ r) = length d" by auto
  then show ?thesis by simp
qed

lemma isoDate_not_whitespace:
  assumes "isoDate d"
  shows "\<not> isWhiteSpace (hd d)"
proof -
  from isoDate_shape [OF assms] have "hd d \<in> set d" by simp
  from isoDate_chars [OF assms this] isDigit_not_special [of "hd d"]
  show ?thesis by (auto simp: isWhiteSpace_def)
qed

subsection \<open>Lines of a CSV dataset\<close>

lemma csvDate_prefix: "\<exists>r. line = csvDate line @ r"
  by (metis csvDate_def takeWhile_dropWhile_id)

lemma csvDate_extends:
  "COMMA \<notin> set d \<Longrightarrow> csvDate (d @ r) = d @ csvDate r"
  unfolding csvDate_def by (induction d) auto

lemma csvDate_append: "COMMA \<notin> set d \<Longrightarrow> csvDate (d @ COMMA # r) = d"
  by (simp add: csvDate_extends) (simp add: csvDate_def)

lemma csvDate_header: "csvDate csvHeaderLine = ''date''"
  by (simp add: csvDate_def csvHeaderLine_def csvHeaders_def)

lemma header_good: "LF \<notin> set csvHeaderLine" "trim csvHeaderLine \<noteq> []"
  by (simp_all add: csvHeaderLine_def csvHeaders_def trim_def isWhiteSpace_def)

lemma isoDate_not_header: "isoDate d \<Longrightarrow> \<not> startsWith csvHeaderLine d"
proof
  assume iso: "isoDate d" and "startsWith csvHeaderLine d"
  then obtain r where r: "csvHeaderLine = d @ r" by (auto simp: startsWith_iff)
  from isoDate_shape [OF iso] have "d \<noteq> []" by simp
  with r have "hd d = CHR ''d''"
    by (cases d) (simp_all add: csvHeaderLine_def csvHeaders_def)
  with isoDate_shape [OF iso] isDigit_not_sign [of "hd d"] show False by auto
qed

lemma startsWith_row:
  assumes "isoDate d" and "isoDate (csvDate line)"
  shows "startsWith line d \<longleftrightarrow> csvDate line = d"
proof
  assume "csvDate line = d"
  with csvDate_prefix [of line] show "startsWith line d" by (auto simp: startsWith_iff)
next
  assume "startsWith line d"
  then obtain r where r: "line = d @ r" by (auto simp: startsWith_iff)
  have "csvDate line = d @ csvDate r"
    unfolding r by (rule csvDate_extends) (rule isoDate_no_COMMA [OF assms(1)])
  with isoDate_prefix_free [OF assms(1), of "csvDate r"] assms(2)
  show "csvDate line = d" by simp
qed

lemma csvDataset_Cons: "csvDataset (h # rows) \<longleftrightarrow> h = csvHeaderLine \<and> (\<forall>r \<in> set rows. csvRow r)"
  by (simp add: csvDataset_def list_all_iff)

lemma csvDataset_line:
  assumes "csvDataset ls" and "l \<in> set ls"
  shows "l = csvHeaderLine \<or> csvRow l"
  using assms by (cases ls) (auto simp: csvDataset_Cons)

lemma startsWith_dataset:
  assumes "isoDate d" and "csvDataset ls" and "l \<in> set ls"
  shows "startsWith l d \<longleftrightarrow> csvDate l = d"
proof -
  from csvDataset_line [OF assms(2,3)] show ?thesis
  proof
    assume h: "l = csvHeaderLine"
    have "csvDate l \<noteq> d"
    proof
      assume "csvDate l = d"
      with h assms(1) have "isoDate ''date''" by (simp add: csvDate_header)
      then show False by (simp add: isoDate_def isDigit_def digitValue_def)
    qed
    with h isoDate_not_header [OF assms(1)] show ?thesis by simp
  next
    assume "csvRow l"
    then show ?thesis using startsWith_row [OF assms(1)] by (simp add: csvRow_def)
  qed
qed

lemma csvRow_good:
  assumes "csvRow l"
  shows "LF \<notin> set l" and "trim l \<noteq> []"
proof -
  from assms show "LF \<notin> set l" by (simp add: csvRow_def)
  from assms have iso: "isoDate (csvDate l)" by (simp add: csvRow_def)
  obtain r where r: "l = csvDate l @ r" using csvDate_prefix by blast
  from isoDate_shape [OF iso] have ne: "csvDate l \<noteq> []" by simp
  then have "hd (csvDate l) \<in> set l" by (subst r) simp
  with isoDate_not_whitespace [OF iso] show "trim l \<noteq> []"
    unfolding trim_empty_iff by blast
qed

lemma csvDataset_good:
  assumes "csvDataset ls" and "l \<in> set ls"
  shows "LF \<notin> set l \<and> trim l \<noteq> []"
  using csvDataset_line [OF assms] header_good csvRow_good by blast

lemma csvLinesOf_dataset: "csvDataset ls \<Longrightarrow> csvLinesOf (join [LF] ls) = ls"
  by (rule csvLinesOf_join) (rule csvDataset_good)

lemma csvDate_newLine: "COMMA \<notin> set d \<Longrightarrow> csvDate (csvLineOf (newEntry s c k t cl d)) = d"
  by (simp only: csvLineOf_newEntry) (rule csvDate_append)

lemma csvRow_newLine: "isoDate d \<Longrightarrow> csvRow (csvLineOf (newEntry s c k t cl d))"
  using csvLine_good(1) [of d s c k t cl]
  by (simp add: csvRow_def csvDate_newLine isoDate_no_COMMA isoDate_no_LF)

subsection \<open>Where the upsert puts the record\<close>

lemma entryDate_Inl: "entryDate e = Inl err \<Longrightarrow> e = JNull"
  by (cases e) simp_all

lemma dateMatch_True:
  "(case entryDate e of Inl err \<Rightarrow> Inl err | Inr v \<Rightarrow> Inr (v = Some (JStr d))) = Inr True
     \<longleftrightarrow> entryDate e = Inr (Some (JStr d))"
  by (cases "entryDate e") auto

lemma dateMatch_False:
  "(case entryDate e of Inl err \<Rightarrow> Inl err | Inr v \<Rightarrow> Inr (v = Some (JStr d))) = Inr False
     \<Longrightarrow> entryDate e \<noteq> Inr (Some (JStr d))"
  by (cases "entryDate e") auto

lemma dateMatch_total:
  "e \<noteq> JNull \<Longrightarrow>
   \<exists>b. (case entryDate e of Inl err \<Rightarrow> Inl err | Inr v \<Rightarrow> Inr (v = Some (JStr d))) = Inr b"
  using entryDate_Inl [of e] by (cases "entryDate e") auto

lemma upsertJson_placement:
  assumes "JNull \<notin> set es"
  shows "\<exists>es'. upsertJson (JArr es) (newEntry s c k t cl d) d = Inr (JArr es')
    \<and> (if \<exists>e \<in> set es. entryDate e = Inr (Some (JStr d))
       then \<exists>i < length es. entryDate (es ! i) = Inr (Some (JStr d))
              \<and> (\<forall>j < i. entryDate (es ! j) \<noteq> Inr (Some (JStr d)))
              \<and> es' = es[i := JObj (newEntry s c k t cl d)]
       else es' = es @ [JObj (newEntry s c k t cl d)])"
proof -
  let ?p = "\<lambda>e. case entryDate e of Inl err \<Rightarrow> Inl err | Inr v \<Rightarrow> Inr (v = Some (JStr d))"
  have "\<exists>i. findIndexE ?p es = Inr i"
  proof (rule findIndexE_total)
    fix x assume "x \<in> set es"
    with assms have "x \<noteq> JNull" by auto
    then show "\<exists>b. ?p x = Inr b" by (rule dateMatch_total)
  qed
  then obtain i where i: "findIndexE ?p es = Inr i" by blast
  have found: "i \<noteq> -1 \<longleftrightarrow> (\<exists>e \<in> set es. entryDate e = Inr (Some (JStr d)))"
    using findIndexE_found_iff [OF i] by (simp add: dateMatch_True)
  show ?thesis
  proof (cases "i = -1")
    case True
    with i found show ?thesis by (simp add: upsertJson_array)
  next
    case False
    from findIndexE_range [OF i] False have lt: "nat i < length es" by auto
    have hit: "entryDate (es ! nat i) = Inr (Some (JStr d))"
      using findIndexE_hit [OF i False] by (simp add: dateMatch_True)
    have before: "\<forall>j < nat i. entryDate (es ! j) \<noteq> Inr (Some (JStr d))"
      using findIndexE_before [OF i False] dateMatch_False by blast
    from False i found lt hit before show ?thesis
      by (auto simp: upsertJson_array)
  qed
qed

lemma upsertCsv_placement:
  assumes "isoDate d" and "csvDataset ls"
  shows "if \<exists>l \<in> set ls. csvDate l = d
         then \<exists>i < length ls. csvDate (ls ! i) = d \<and> (\<forall>j < i. csvDate (ls ! j) \<noteq> d)
                \<and> upsertCsv ls line d = ls[i := line]
         else upsertCsv ls line d = ls @ [line]"
proof -
  let ?p = "\<lambda>l. startsWith l d"
  let ?i = "findIndex ?p ls"
  have match: "\<And>l. l \<in> set ls \<Longrightarrow> startsWith l d \<longleftrightarrow> csvDate l = d"
    by (rule startsWith_dataset [OF assms])
  have found: "?i \<noteq> -1 \<longleftrightarrow> (\<exists>l \<in> set ls. csvDate l = d)"
    using findIndex_found_iff [of ?p ls] match by auto
  show ?thesis
  proof (cases "?i = -1")
    case True
    with found show ?thesis by (simp add: upsertCsv_def)
  next
    case False
    from findIndex_range [of ?p ls] False have lt: "nat ?i < length ls" by auto
    have hit: "csvDate (ls ! nat ?i) = d"
      using findIndex_hit [OF False] match [of "ls ! nat ?i"] lt by simp
    have before: "\<forall>j < nat ?i. csvDate (ls ! j) \<noteq> d"
    proof (intro allI impI)
      fix j assume j: "j < nat ?i"
      with lt have "ls ! j \<in> set ls" by simp
      with findIndex_before [OF False j] match show "csvDate (ls ! j) \<noteq> d" by blast
    qed
    from False found lt hit before show ?thesis
      by (auto simp: upsertCsv_def)
  qed
qed

subsection \<open>Dates stay unique\<close>

lemma definedDates_Nil: "definedDates [] = []"
  by (simp add: definedDates_def)

lemma definedDates_Cons:
  "definedDates (e # es) =
     (case entryDate e of Inr (Some v) \<Rightarrow> v # definedDates es | _ \<Rightarrow> definedDates es)"
  by (simp add: definedDates_def split: sum.splits option.splits)

lemma definedDates_append: "definedDates (xs @ ys) = definedDates xs @ definedDates ys"
  by (induction xs) (simp_all add: definedDates_Nil definedDates_Cons split: sum.splits option.splits)

lemma definedDates_mem:
  "v \<in> set (definedDates es) \<longleftrightarrow> (\<exists>e \<in> set es. entryDate e = Inr (Some v))"
  by (induction es) (auto simp: definedDates_Nil definedDates_Cons split: sum.splits option.splits)

lemma definedDates_update:
  "i < length es \<Longrightarrow> entryDate (es ! i) = entryDate new \<Longrightarrow>
   definedDates (es[i := new]) = definedDates es"
proof (induction es arbitrary: i)
  case Nil
  then show ?case by simp
next
  case (Cons e es)
  then show ?case
    by (cases i) (simp_all add: definedDates_Cons split: sum.splits option.splits)
qed

lemma upsertJson_unique:
  assumes "upsertJson (JArr es) (newEntry s c k t cl d) d = Inr data'"
    and "uniqueDatesJson es"
  shows "\<exists>es'. data' = JArr es' \<and> uniqueDatesJson es'"
  using assms(1)
proof (cases rule: upsertJson_cases)
  case (replaced es0 i)
  then have es0: "es0 = es" by simp
  have "entryDate (es ! nat i) = Inr (Some (JStr d))"
    using findIndexE_hit [OF replaced(2,3)] es0 by (simp add: dateMatch_True)
  then have "definedDates (es[nat i := JObj (newEntry s c k t cl d)]) = definedDates es"
    using replaced(4) es0 by (intro definedDates_update) (simp_all add: newEntry_def)
  with replaced(5) es0 assms(2) show ?thesis by (simp add: uniqueDatesJson_def)
next
  case (appended es0)
  then have es0: "es0 = es" by simp
  have "JStr d \<notin> set (definedDates es)"
    using findIndexE_miss [OF appended(2)] dateMatch_False es0
    unfolding definedDates_mem by blast
  with appended(3) es0 assms(2) show ?thesis
    by (simp add: uniqueDatesJson_def definedDates_append definedDates_Cons definedDates_Nil
        newEntry_def)
qed

lemma generateFileContent_json_unique:
  assumes "JSON_parse file = Inr (JArr es)" and "uniqueDatesJson es"
    and "generateFileContent (Some file) s c k t cl d ''json'' = Inr result"
  shows "\<exists>file' es'. result = Some file' \<and> JSON_parse file' = Inr (JArr es')
           \<and> uniqueDatesJson es'"
proof -
  from assms(3) obtain data data' where *: "JSON_parse file = Inr data"
    "upsertJson data (newEntry s c k t cl d) d = Inr data'" "result = Some (JSON_stringify data')"
    by (rule generateFileContent_json_Inr)
  with assms(1) have "data = JArr es" by simp
  with upsertJson_unique [OF _ assms(2)] *(2) obtain es' where
    "data' = JArr es'" "uniqueDatesJson es'" by blast
  with *(3) show ?thesis by (auto simp: JSON_parse_stringify)
qed

lemma upsertAll_json_unique:
  assumes "JSON_parse file = Inr (JArr es)" and "uniqueDatesJson es"
    and "upsertAll ''json'' rs (Some file) = Inr (Some file')"
  shows "\<exists>es'. JSON_parse file' = Inr (JArr es') \<and> uniqueDatesJson es'"
  using assms
proof (induction rs arbitrary: "file" es)
  case Nil
  then show ?case by auto
next
  case (Cons r rs)
  obtain s c k t cl d where r: "r = (s, c, k, t, cl, d)" by (cases r) auto
  from Cons.prems(3) r obtain result where
    g: "generateFileContent (Some file) s c k t cl d ''json'' = Inr result"
    and rest: "upsertAll ''json'' rs result = Inr (Some file')"
    by (auto split: sum.splits)
  from generateFileContent_json_unique [OF Cons.prems(1,2) g]
  obtain file1 es1 where "result = Some file1" "JSON_parse file1 = Inr (JArr es1)"
    "uniqueDatesJson es1" by blast
  with Cons.IH [of file1 es1] rest show ?case by simp
qed

lemma upsertCsv_invariant:
  assumes iso: "isoDate d" and ds: "csvDataset ls" and uq: "uniqueDatesCsv ls"
  shows "csvDataset (upsertCsv ls (csvLineOf (newEntry s c k t cl d)) d)
    \<and> uniqueDatesCsv (upsertCsv ls (csvLineOf (newEntry s c k t cl d)) d)"
proof -
  let ?line = "csvLineOf (newEntry s c k t cl d)"
  obtain h rows where ls: "ls = h # rows" using ds by (cases ls) (auto simp: csvDataset_def)
  with ds have h: "h = csvHeaderLine" and rows: "\<forall>r \<in> set rows. csvRow r"
    by (simp_all add: csvDataset_Cons)
  have line: "csvRow ?line" and dline: "csvDate ?line = d"
    using iso by (simp_all add: csvRow_newLine csvDate_newLine isoDate_no_COMMA)
  have hdate: "csvDate h \<noteq> d"
  proof
    assume "csvDate h = d"
    with h iso have "isoDate ''date''" by (simp add: csvDate_header)
    then show False by (simp add: isoDate_def isDigit_def digitValue_def)
  qed
  note place = upsertCsv_placement [OF iso ds, of ?line]
  show ?thesis
  proof (cases "\<exists>l \<in> set ls. csvDate l = d")
    case True
    with place obtain i where i: "i < length ls" "csvDate (ls ! i) = d"
      "upsertCsv ls ?line d = ls[i := ?line]" by auto
    from i(2) hdate ls obtain j where j: "i = Suc j" by (cases i) auto
    with i(3) ls have up: "upsertCsv ls ?line d = h # rows[j := ?line]" by simp
    have "\<forall>r \<in> set (rows[j := ?line]). csvRow r"
      using rows line set_update_subset_insert [of rows j ?line] by auto
    then have "csvDataset (upsertCsv ls ?line d)" using up h by (simp add: csvDataset_Cons)
    moreover have "map csvDate (ls[i := ?line]) = map csvDate ls"
      using i(1,2) dline by (simp add: map_update list_update_same_conv)
    with uq i(3) have "uniqueDatesCsv (upsertCsv ls ?line d)"
      by (simp add: uniqueDatesCsv_def)
    ultimately show ?thesis by simp
  next
    case False
    with place have up: "upsertCsv ls ?line d = ls @ [?line]" by simp
    have "csvDataset (ls @ [?line])" using ls h rows line by (simp add: csvDataset_Cons)
    moreover have "uniqueDatesCsv (ls @ [?line])"
      using uq False dline by (auto simp: uniqueDatesCsv_def)
    ultimately show ?thesis using up by simp
  qed
qed

lemma upsertAll_csv_unique:
  assumes "csvDataset (csvLinesOf file)" and "uniqueDatesCsv (csvLinesOf file)"
    and "\<forall>(s, c, k, t, cl, d) \<in> set rs. isoDate d"
    and "upsertAll ''csv'' rs (Some file) = Inr (Some file')"
  shows "csvDataset (csvLinesOf file') \<and> uniqueDatesCsv (csvLinesOf file')"
  using assms
proof (induction rs arbitrary: "file")
  case Nil
  then show ?case by simp
next
  case (Cons r rs)
  obtain s c k t cl d where r: "r = (s, c, k, t, cl, d)" by (cases r) auto
  with Cons.prems(3) have iso: "isoDate d" by simp
  let ?file1 = "join [LF] (upsertCsv (csvLinesOf file) (csvLineOf (newEntry s c k t cl d)) d)"
  have lines: "csvLinesOf ?file1
      = upsertCsv (csvLinesOf file) (csvLineOf (newEntry s c k t cl d)) d"
    by (rule csvLinesOf_generateFileContent) (rule isoDate_no_LF [OF iso])
  from Cons.prems(4) r have rest: "upsertAll ''csv'' rs (Some ?file1) = Inr (Some file')"
    by (simp add: generateFileContent_csv)
  from upsertCsv_invariant [OF iso Cons.prems(1,2), of s c k t cl] lines
  have "csvDataset (csvLinesOf ?file1)" "uniqueDatesCsv (csvLinesOf ?file1)" by simp_all
  with Cons.IH [of ?file1] Cons.prems(3) rest show ?case by simp
qed

subsection \<open>Reading the file back\<close>

lemma readInsightsFile_json:
  "getContent st path branch = Inr (JSON_stringify (JArr es)) \<Longrightarrow>
   readInsightsFile st path branch ''json''
     = Inr (JSON_stringify (JArr es), Some (JNum (int (length es))))"
  by (simp add: readInsightsFile_def JSON_parse_stringify)

lemma readInsightsFile_csv:
  "getContent st path branch = Inr (join [LF] ls) \<Longrightarrow> csvDataset ls \<Longrightarrow>
   readInsightsFile st path branch ''csv''
     = Inr (join [LF] ls, Some (JNum (int (length ls) - 1)))"
  by (simp add: readInsightsFile_def csvLinesOf_dataset Let_def)

subsection \<open>Loading the file\<close>

lemma JSON_stringify_empty: "JSON_stringify (JArr []) = ''[]''"
  by (simp add: JSON_stringify_def)

lemma JSON_parse_empty: "JSON_parse ''[]'' = Inr (JArr [])"
  using JSON_parse_stringify [of "JArr []"] by (simp add: JSON_stringify_empty)

lemma getInsightsFile_fallback:
  assumes "readInsightsFile st (statsPath rootDir owner repo format) branch format = Inl err"
    and "format = ''json'' \<or> format = ''csv''"
  shows "getInsightsFile st owner repo branch rootDir format
    = Inr (if format = ''json'' then ''[]'' else csvHeaderLine @ [LF], Some (JNum 0))"
  using assms by (auto simp: getInsightsFile_def JSON_stringify_empty csvHeaderLine_def)

lemma readInsightsFile_fetch_failure:
  "getContent st path branch = Inl err \<Longrightarrow> readInsightsFile st path branch format = Inl err"
  by (simp add: readInsightsFile_def)

subsection \<open>The branch\<close>

lemma getRef_missing:
  "rejects st (GetRef ref) = None \<Longrightarrow> map_of (refs st) (''refs/'' @ ref) = None \<Longrightarrow>
   getRef st ref = Inl (HttpError 404)"
  by (simp add: getRef_def)

lemma getRef_Inr:
  "getRef st ref = Inr s \<longleftrightarrow> rejects st (GetRef ref) = None \<and> map_of (refs st) (''refs/'' @ ref) = Some s"
  by (auto simp: getRef_def split: option.splits)

lemma ensureBranchExists_found:
  "getRef st (''heads/'' @ branch) = Inr s \<Longrightarrow> ensureBranchExists st branch = Inr st"
  by (simp add: ensureBranchExists_def)

lemma ensureBranchExists_not_found:
  "getRef st (''heads/'' @ branch) = Inl (HttpError 404) \<Longrightarrow>
   getRef st ''heads/main'' = Inr mainSha \<Longrightarrow>
   ensureBranchExists st branch = createRef st (''refs/heads/'' @ branch) mainSha"
  by (simp add: ensureBranchExists_def)

lemma createRef_new:
  "rejects st (CreateRef ref) = None \<Longrightarrow> map_of (refs st) ref = None \<Longrightarrow>
   createRef st ref s = Inr (st\<lparr>refs := refs st @ [(ref, s)]\<rparr>)"
  by (simp add: createRef_def)

lemma createRef_Inr:
  "createRef st ref s = Inr st' \<Longrightarrow>
   map_of (refs st) ref = None \<and> st' = st\<lparr>refs := refs st @ [(ref, s)]\<rparr>"
  by (auto simp: createRef_def split: option.splits)

lemma ensureBranchExists_cases:
  assumes "ensureBranchExists st branch = Inr st'"
  obtains (kept) "st' = st"
    | (created) mainSha where "getRef st (''heads/'' @ branch) = Inl (HttpError 404)"
        "getRef st ''heads/main'' = Inr mainSha"
        "map_of (refs st) (''refs/heads/'' @ branch) = None"
        "st' = st\<lparr>refs := refs st @ [(''refs/heads/'' @ branch, mainSha)]\<rparr>"
proof (cases "getRef st (''heads/'' @ branch)")
  case (Inr s)
  with assms kept show ?thesis by (simp add: ensureBranchExists_def)
next
  case (Inl err)
  with assms have err: "err = HttpError 404"
    by (auto simp: ensureBranchExists_def split: if_splits)
  with Inl assms obtain mainSha where m: "getRef st ''heads/main'' = Inr mainSha"
    by (auto simp: ensureBranchExists_def split: sum.splits)
  with Inl err assms have "createRef st (''refs/heads/'' @ branch) mainSha = Inr st'"
    by (simp add: ensureBranchExists_def)
  from createRef_Inr [OF this] Inl err m created show ?thesis by blast
qed

lemma ensureBranchExists_again:
  assumes "rejects st (GetRef (''heads/'' @ branch)) = None"
    and "ensureBranchExists st branch = Inr st'"
  shows "ensureBranchExists st' branch = Inr st'"
  using assms(2)
proof (cases rule: ensureBranchExists_cases)
  case kept
  with assms(2) show ?thesis by simp
next
  case (created mainSha)
  have "getRef st' (''heads/'' @ branch) = Inr mainSha"
    using assms(1) created(3,4) by (simp add: getRef_Inr map_add_def)
  then show ?thesis by (rule ensureBranchExists_found)
qed

subsection \<open>A run with an unknown format\<close>

lemma readInsightsFile_unsupported:
  "format \<noteq> ''json'' \<Longrightarrow> format \<noteq> ''csv'' \<Longrightarrow>
   \<exists>err. readInsightsFile st path branch format = Inl err"
  by (simp add: readInsightsFile_def split: sum.splits)

lemma getInsightsFile_unsupported:
  assumes "format \<noteq> ''json''" and "format \<noteq> ''csv''"
  shows "getInsightsFile st owner repo branch rootDir format = Inl UnsupportedFormat"
proof -
  from readInsightsFile_unsupported [OF assms] obtain err where
    "readInsightsFile st (statsPath rootDir owner repo format) branch format = Inl err"
    by blast
  with assms show ?thesis by (simp add: getInsightsFile_def)
qed

lemma run_unsupported:
  assumes "formatOf inp \<noteq> ''json''" and "formatOf inp \<noteq> ''csv''"
  shows "run inp w =
    (case getRepoStats (octokitInsights w) of
       Inl err \<Rightarrow> Some (Inl err, storageRepo w)
     | Inr stats \<Rightarrow>
         (case ensureBranchExists (storageRepo w) (branchOf inp) of
            Inl err \<Rightarrow> Some (Inl err, storageRepo w)
          | Inr st \<Rightarrow> Some (Inl UnsupportedFormat, st)))"
  using assms
  by (simp add: run_def getInsightsFile_unsupported split: sum.splits prod.splits)

subsection \<open>The backfill loop\<close>

lemma backfillLoop_done:
  "backfillLoop api dateOf s c k fmt 1 insightsFile = Some (Inr insightsFile)"
  by (subst backfillLoop.simps) simp

lemma backfillLoop_turn:
  "i \<noteq> 1 \<Longrightarrow>
   backfillLoop api dateOf s c k fmt i insightsFile
     = (case backfillDay api dateOf s c k fmt i insightsFile of
          Inl err \<Rightarrow> Some (Inl err)
        | Inr insightsFile' \<Rightarrow> backfillLoop api dateOf s c k fmt (i - 1) insightsFile')"
  by (subst backfillLoop.simps) simp

lemma backfillLoop_unroll:
  "backfillLoop api dateOf s c k fmt (int m + 1) insightsFile
     = Some (backfillDays api dateOf s c k fmt (map int (rev [2..<m + 2])) insightsFile)"
proof (induction m arbitrary: insightsFile)
  case 0
  show ?case by (simp add: backfillLoop_done)
next
  case (Suc m)
  have offsets: "map int (rev [2..<Suc m + 2]) = (int m + 2) # map int (rev [2..<m + 2])"
    by simp
  have ne: "int m + 2 \<noteq> 1" by simp
  have pred: "int m + 2 - 1 = int m + 1" by simp
  have idx: "int (Suc m) + 1 = int m + 2" by simp
  note turn = backfillLoop_turn [OF ne, of api dateOf s c k fmt insightsFile, unfolded pred]
  show ?case
  proof (cases "backfillDay api dateOf s c k fmt (int m + 2) insightsFile")
    case (Inl err)
    then show ?thesis
      unfolding idx offsets turn by (simp only: sum.case backfillDays.simps)
  next
    case (Inr insightsFile')
    then show ?thesis
      unfolding idx offsets turn by (simp only: sum.case backfillDays.simps Suc.IH)
  qed
qed

lemma backfill_offsets: "map int (rev [2..<13 + 2]) = [14, 13, 12, 11, 10, 9, 8, 7, 6, 5, 4, 3, 2]"
  by code_simp

lemma backfillLoop_14:
  "backfillLoop api dateOf s c k fmt 14 insightsFile
     = Some (backfillDays api dateOf s c k fmt [14, 13, 12, 11, 10, 9, 8, 7, 6, 5, 4, 3, 2]
               insightsFile)"
  using backfillLoop_unroll [of api dateOf s c k fmt 13 insightsFile]
  by (simp only: backfill_offsets) simp

lemma backfillDay_Inr:
  assumes "backfillDay api dateOf s c k fmt i insightsFile = Inr result"
  obtains t cl where "getYesterdayTraffic api (dateOf i) = Inr t"
    "getYesterdayClones api (dateOf i) = Inr cl"
    "generateFileContent insightsFile s c k t cl (dateOf i) fmt = Inr result"
  using assms by (auto simp: backfillDay_def Let_def split: sum.splits)

lemma backfill_offsets_set: "set [14, 13, 12, 11, 10, 9, 8, 7, 6, 5, 4, 3, 2] = {2..14::int}"
proof -
  have "set (map int (rev [2..<13 + 2])) = {2..14::int}"
  proof (intro equalityI subsetI)
    fix x assume "x \<in> set (map int (rev [2..<13 + 2]))"
    then show "x \<in> {2..14::int}" by auto
  next
    fix x :: int assume x: "x \<in> {2..14}"
    then have "nat x \<in> {2..<13 + 2}" by auto
    then have "nat x \<in> set (rev [2..<13 + 2])" by (simp only: set_rev set_upt)
    then have "int (nat x) \<in> set (map int (rev [2..<13 + 2]))"
      by (metis imageI list.set_map)
    moreover have "int (nat x) = x" using x by simp
    ultimately show "x \<in> set (map int (rev [2..<13 + 2]))" by (simp only:)
  qed
  then show ?thesis by (simp only: backfill_offsets)
qed

lemma backfillDays_upsertAll:
  assumes "\<forall>i \<in> set offsets. getYesterdayTraffic api (dateOf i) = Inr (t i)
             \<and> getYesterdayClones api (dateOf i) = Inr (cl i)"
  shows "backfillDays api dateOf s c k fmt offsets insightsFile
     = upsertAll fmt (map (\<lambda>i. (s, c, k, t i, cl i, dateOf i)) offsets) insightsFile"
  using assms
proof (induction offsets arbitrary: insightsFile)
  case Nil
  show ?case by simp
next
  case (Cons i offsets)
  from Cons.prems have fetch: "getYesterdayTraffic api (dateOf i) = Inr (t i)"
    "getYesterdayClones api (dateOf i) = Inr (cl i)"
    and rest: "\<forall>j \<in> set offsets. getYesterdayTraffic api (dateOf j) = Inr (t j)
             \<and> getYesterdayClones api (dateOf j) = Inr (cl j)"
    by simp_all
  have day: "backfillDay api dateOf s c k fmt i insightsFile
      = generateFileContent insightsFile s c k (t i) (cl i) (dateOf i) fmt"
    by (simp add: backfillDay_def fetch)
  show ?case
  proof (cases "generateFileContent insightsFile s c k (t i) (cl i) (dateOf i) fmt")
    case (Inl err)
    then show ?thesis by (simp add: day)
  next
    case (Inr insightsFile')
    then show ?thesis by (simp add: day Cons.IH [OF rest])
  qed
qed

lemma backfill_returns: "\<exists>r. backfill api dateOf s c k fmt insightsCount insightsFile = Some r"
  by (simp add: backfill_def backfillLoop_14)

lemma generateFileContent_json_text:
  "generateFileContent (Some (JSON_stringify (JArr es))) s c k t cl d ''json''
     = (case upsertJson (JArr es) (newEntry s c k t cl d) d of
          Inl err \<Rightarrow> Inl (UnableToGenerate err)
        | Inr data' \<Rightarrow> Inr (Some (JSON_stringify data')))"
  by (simp add: generateFileContent_json JSON_parse_stringify)

subsection \<open>What the backfill leaves in the file\<close>

lemma backfilledEntry_iff:
  "backfilledEntry api dateOf s c k i e \<longleftrightarrow>
     (\<exists>t cl. getYesterdayTraffic api (dateOf i) = Inr t
        \<and> getYesterdayClones api (dateOf i) = Inr cl
        \<and> e = JObj (newEntry s c k t cl (dateOf i)))"
  by (auto simp: backfilledEntry_def newEntry_def split: sum.splits)

lemma backfilledEntry_date:
  "backfilledEntry api dateOf s c k i e \<Longrightarrow> entryDate e = Inr (Some (JStr (dateOf i)))"
  by (auto simp: backfilledEntry_iff entryDate_newEntry)

lemma backfilledEntry_same_date:
  assumes "backfilledEntry api dateOf s c k i e" and "dateOf j = dateOf i"
  shows "backfilledEntry api dateOf s c k j e"
  using assms by (auto simp: backfilledEntry_iff)

lemma backfilledEntry_unique:
  assumes "backfilledEntry api dateOf s c k i e" and "backfilledEntry api dateOf s c k i e'"
  shows "e = e'"
  using assms by (auto simp: backfilledEntry_iff)

lemma upsertJson_step:
  assumes "upsertJson (JArr es) (newEntry s c k t cl d) d = Inr (JArr es1)"
  shows "set es1 \<subseteq> insert (JObj (newEntry s c k t cl d)) (set es)"
    and "JObj (newEntry s c k t cl d) \<in> set es1"
    and "\<And>e. e \<in> set es \<Longrightarrow> e \<in> set es1 \<or> entryDate e = Inr (Some (JStr d))"
proof -
  let ?new = "JObj (newEntry s c k t cl d)"
  from assms have "set es1 \<subseteq> insert ?new (set es) \<and> ?new \<in> set es1
      \<and> (\<forall>e \<in> set es. e \<in> set es1 \<or> entryDate e = Inr (Some (JStr d)))"
  proof (cases rule: upsertJson_cases)
    case (replaced es0 i)
    then have es1: "es1 = es[nat i := ?new]" and lt: "nat i < length es" by simp_all
    have hit: "entryDate (es ! nat i) = Inr (Some (JStr d))"
      using findIndexE_hit [OF replaced(2,3)] replaced(1) by (simp add: dateMatch_True)
    have "\<forall>e \<in> set es. e \<in> set es1 \<or> entryDate e = Inr (Some (JStr d))"
    proof
      fix e assume "e \<in> set es"
      then obtain m where m: "m < length es" "es ! m = e" by (auto simp: in_set_conv_nth)
      show "e \<in> set es1 \<or> entryDate e = Inr (Some (JStr d))"
      proof (cases "m = nat i")
        case True
        with m hit show ?thesis by simp
      next
        case False
        with m have "es1 ! m = e" "m < length es1" by (simp_all add: es1)
        then show ?thesis using nth_mem by blast
      qed
    qed
    moreover have "set es1 \<subseteq> insert ?new (set es)"
      unfolding es1 by (rule set_update_subset_insert)
    moreover have "?new \<in> set es1"
      unfolding es1 using lt by (rule set_update_memI)
    ultimately show ?thesis by blast
  next
    case (appended es0)
    then show ?thesis by auto
  qed
  then show "set es1 \<subseteq> insert ?new (set es)" and "?new \<in> set es1"
    and "\<And>e. e \<in> set es \<Longrightarrow> e \<in> set es1 \<or> entryDate e = Inr (Some (JStr d))"
    by blast+
qed

lemma backfillDays_json:
  assumes "JSON_parse content = Inr (JArr es)"
    and "backfillDays api dateOf s c k ''json'' offsets (Some content) = Inr (Some content')"
  shows "\<exists>es'. JSON_parse content' = Inr (JArr es')
    \<and> (\<forall>e \<in> set es'. e \<in> set es \<or> (\<exists>i \<in> set offsets. backfilledEntry api dateOf s c k i e))
    \<and> (\<forall>i \<in> set offsets. \<exists>e \<in> set es'. backfilledEntry api dateOf s c k i e)
    \<and> (\<forall>i. (\<exists>e \<in> set es. backfilledEntry api dateOf s c k i e)
           \<longrightarrow> (\<exists>e \<in> set es'. backfilledEntry api dateOf s c k i e))"
  using assms
proof (induction offsets arbitrary: content es)
  case Nil
  then show ?case by auto
next
  case (Cons i offsets)
  let ?B = "backfilledEntry api dateOf s c k"
  from Cons.prems(2) obtain r1 where
    day: "backfillDay api dateOf s c k ''json'' i (Some content) = Inr r1"
    and rest: "backfillDays api dateOf s c k ''json'' offsets r1 = Inr (Some content')"
    by (auto split: sum.splits)
  from day obtain t cl where fetch: "getYesterdayTraffic api (dateOf i) = Inr t"
    "getYesterdayClones api (dateOf i) = Inr cl"
    and gen: "generateFileContent (Some content) s c k t cl (dateOf i) ''json'' = Inr r1"
    by (rule backfillDay_Inr)
  let ?new = "JObj (newEntry s c k t cl (dateOf i))"
  have new: "?B i ?new" using fetch by (auto simp: backfilledEntry_iff)
  from gen obtain data data1 where *: "JSON_parse content = Inr data"
    "upsertJson data (newEntry s c k t cl (dateOf i)) (dateOf i) = Inr data1"
    "r1 = Some (JSON_stringify data1)"
    by (rule generateFileContent_json_Inr)
  with Cons.prems(1) have data: "data = JArr es" by simp
  with *(2) obtain es1 where es1: "data1 = JArr es1"
    by (auto elim: upsertJson_cases)
  note step = upsertJson_step [OF *(2) [unfolded data es1]]
  have parse1: "JSON_parse (JSON_stringify data1) = Inr (JArr es1)"
    by (simp add: es1 JSON_parse_stringify)
  from Cons.IH [OF parse1 rest [unfolded *(3)]] obtain es' where
    es': "JSON_parse content' = Inr (JArr es')"
    and from': "\<forall>e \<in> set es'. e \<in> set es1 \<or> (\<exists>j \<in> set offsets. ?B j e)"
    and has': "\<forall>j \<in> set offsets. \<exists>e \<in> set es'. ?B j e"
    and keep': "\<forall>j. (\<exists>e \<in> set es1. ?B j e) \<longrightarrow> (\<exists>e \<in> set es'. ?B j e)"
    by blast
  have keep1: "\<And>j. (\<exists>e \<in> set es. ?B j e) \<Longrightarrow> (\<exists>e \<in> set es1. ?B j e)"
  proof -
    fix j assume "\<exists>e \<in> set es. ?B j e"
    then obtain e where e: "e \<in> set es" "?B j e" by blast
    from step(3) [OF e(1)] show "\<exists>e \<in> set es1. ?B j e"
    proof
      assume "e \<in> set es1"
      with e(2) show ?thesis by blast
    next
      assume "entryDate e = Inr (Some (JStr (dateOf i)))"
      with backfilledEntry_date [OF e(2)] have "dateOf j = dateOf i" by simp
      from backfilledEntry_same_date [OF new this] step(2) show ?thesis by blast
    qed
  qed
  have "\<forall>e \<in> set es'. e \<in> set es \<or> (\<exists>j \<in> set (i # offsets). ?B j e)"
  proof
    fix e assume "e \<in> set es'"
    with from' have "e \<in> set es1 \<or> (\<exists>j \<in> set offsets. ?B j e)" by blast
    then show "e \<in> set es \<or> (\<exists>j \<in> set (i # offsets). ?B j e)"
      using step(1) new by auto
  qed
  moreover have "\<forall>j \<in> set (i # offsets). \<exists>e \<in> set es'. ?B j e"
    using has' keep' step(2) new by auto
  moreover have "\<forall>j. (\<exists>e \<in> set es. ?B j e) \<longrightarrow> (\<exists>e \<in> set es'. ?B j e)"
    using keep1 keep' by blast
  ultimately show ?case using es' by blast
qed

lemma upsertCsv_step:
  assumes "startsWith line d"
  shows "set (upsertCsv ls line d) \<subseteq> insert line (set ls)"
    and "line \<in> set (upsertCsv ls line d)"
    and "\<And>l. l \<in> set ls \<Longrightarrow> l \<in> set (upsertCsv ls line d) \<or> startsWith l d"
proof -
  let ?i = "findIndex (\<lambda>l. startsWith l d) ls"
  show "set (upsertCsv ls line d) \<subseteq> insert line (set ls)" by (rule set_upsertCsv)
  show "line \<in> set (upsertCsv ls line d)"
  proof (cases "?i = -1")
    case True
    then show ?thesis by (simp add: upsertCsv_def)
  next
    case False
    with findIndex_range [of "\<lambda>l. startsWith l d" ls] have "nat ?i < length ls" by auto
    then have "line \<in> set (ls[nat ?i := line])" by (rule set_update_memI)
    with False show ?thesis by (simp add: upsertCsv_def)
  qed
  fix l assume l: "l \<in> set ls"
  show "l \<in> set (upsertCsv ls line d) \<or> startsWith l d"
  proof (cases "?i = -1")
    case True
    with l show ?thesis by (simp add: upsertCsv_def)
  next
    case False
    from l obtain m where m: "m < length ls" "ls ! m = l" by (auto simp: in_set_conv_nth)
    show ?thesis
    proof (cases "m = nat ?i")
      case True
      with findIndex_hit [OF False] m show ?thesis by simp
    next
      case neq: False
      with m have "ls[nat ?i := line] ! m = l" "m < length (ls[nat ?i := line])" by simp_all
      then have "l \<in> set (ls[nat ?i := line])" using nth_mem by blast
      with False show ?thesis by (simp add: upsertCsv_def)
    qed
  qed
qed

lemma backfillDays_csv:
  assumes "\<forall>i \<in> set offsets. isoDate (dateOf i)"
    and "backfillDays api dateOf s c k ''csv'' offsets (Some content) = Inr (Some content')"
  shows "(\<forall>l \<in> set (csvLinesOf content'). l \<in> set (csvLinesOf content)
            \<or> (\<exists>i \<in> set offsets. \<exists>ps. backfilledEntry api dateOf s c k i (JObj ps)
                                       \<and> l = csvLineOf ps))
    \<and> (\<forall>i \<in> set offsets. \<exists>ps. backfilledEntry api dateOf s c k i (JObj ps)
                               \<and> csvLineOf ps \<in> set (csvLinesOf content'))
    \<and> (\<forall>i. isoDate (dateOf i)
           \<longrightarrow> (\<exists>ps. backfilledEntry api dateOf s c k i (JObj ps)
                       \<and> csvLineOf ps \<in> set (csvLinesOf content))
           \<longrightarrow> (\<exists>ps. backfilledEntry api dateOf s c k i (JObj ps)
                       \<and> csvLineOf ps \<in> set (csvLinesOf content')))"
  using assms
proof (induction offsets arbitrary: content)
  case Nil
  then show ?case by auto
next
  case (Cons i offsets)
  let ?B = "\<lambda>j l. \<exists>ps. backfilledEntry api dateOf s c k j (JObj ps) \<and> l = csvLineOf ps"
  from Cons.prems(1) have iso: "isoDate (dateOf i)" by simp
  from Cons.prems(2) obtain r1 where
    day: "backfillDay api dateOf s c k ''csv'' i (Some content) = Inr r1"
    and rest: "backfillDays api dateOf s c k ''csv'' offsets r1 = Inr (Some content')"
    by (auto split: sum.splits)
  from day obtain t cl where fetch: "getYesterdayTraffic api (dateOf i) = Inr t"
    "getYesterdayClones api (dateOf i) = Inr cl"
    and gen: "generateFileContent (Some content) s c k t cl (dateOf i) ''csv'' = Inr r1"
    by (rule backfillDay_Inr)
  let ?line = "csvLineOf (newEntry s c k t cl (dateOf i))"
  let ?ls = "csvLinesOf content"
  let ?ls1 = "upsertCsv ?ls ?line (dateOf i)"
  have new: "?B i ?line" using fetch by (auto simp: backfilledEntry_iff)
  from gen have r1: "r1 = Some (join [LF] ?ls1)" by (simp add: generateFileContent_csv)
  have lines1: "csvLinesOf (join [LF] ?ls1) = ?ls1"
    by (rule csvLinesOf_generateFileContent) (rule isoDate_no_LF [OF iso])
  note step = upsertCsv_step [where line = ?line and d = "dateOf i" and ls = ?ls,
      OF csvLine_good(3) [OF isoDate_no_LF [OF iso]]]
  from Cons.prems(1) have iso': "\<forall>j \<in> set offsets. isoDate (dateOf j)" by simp
  note IH = Cons.IH [OF iso' rest [unfolded r1], unfolded lines1]
  from IH have from': "\<forall>l \<in> set (csvLinesOf content'). l \<in> set ?ls1
        \<or> (\<exists>j \<in> set offsets. ?B j l)"
    and has': "\<forall>j \<in> set offsets. \<exists>l \<in> set (csvLinesOf content'). ?B j l"
    and keep': "\<forall>j. isoDate (dateOf j) \<longrightarrow> (\<exists>l \<in> set ?ls1. ?B j l)
        \<longrightarrow> (\<exists>l \<in> set (csvLinesOf content'). ?B j l)"
    by blast+
  have keep1: "\<And>j. isoDate (dateOf j) \<Longrightarrow> (\<exists>l \<in> set ?ls. ?B j l) \<Longrightarrow> (\<exists>l \<in> set ?ls1. ?B j l)"
  proof -
    fix j assume isoj: "isoDate (dateOf j)" and "\<exists>l \<in> set ?ls. ?B j l"
    then obtain l where l: "l \<in> set ?ls" "?B j l" by blast
    from step(3) [OF l(1)] show "\<exists>l \<in> set ?ls1. ?B j l"
    proof
      assume "l \<in> set ?ls1"
      with l(2) show ?thesis by blast
    next
      assume sw: "startsWith l (dateOf i)"
      from l(2) obtain t' cl' where l': "l = csvLineOf (newEntry s c k t' cl' (dateOf j))"
        by (auto simp: backfilledEntry_iff)
      then have "csvDate l = dateOf j"
        using isoj by (simp add: csvDate_newLine isoDate_no_COMMA)
      with startsWith_row [OF iso, of l] isoj sw have "dateOf j = dateOf i" by simp
      with new have "?B j ?line"
        using backfilledEntry_same_date [of api dateOf s c k i _ j] by blast
      with step(2) show ?thesis by blast
    qed
  qed
  have "\<forall>l \<in> set (csvLinesOf content'). l \<in> set ?ls \<or> (\<exists>j \<in> set (i # offsets). ?B j l)"
  proof
    fix l assume "l \<in> set (csvLinesOf content')"
    with from' have "l \<in> set ?ls1 \<or> (\<exists>j \<in> set offsets. ?B j l)" by blast
    then show "l \<in> set ?ls \<or> (\<exists>j \<in> set (i # offsets). ?B j l)"
      using step(1) new by auto
  qed
  moreover have "\<forall>j \<in> set (i # offsets). \<exists>l \<in> set (csvLinesOf content'). ?B j l"
  proof -
    from new step(2) have "\<exists>l \<in> set ?ls1. ?B i l" by blast
    with keep' iso have "\<exists>l \<in> set (csvLinesOf content'). ?B i l" by blast
    with has' show ?thesis by simp
  qed
  moreover have "\<forall>j. isoDate (dateOf j) \<longrightarrow> (\<exists>l \<in> set ?ls. ?B j l)
      \<longrightarrow> (\<exists>l \<in> set (csvLinesOf content'). ?B j l)"
    using keep1 keep' by blast
  ultimately show ?case by blast
qed


lemma run_backfill:
  assumes "getRepoStats (octokitInsights w) = Inr (s, c, k)"
    and "ensureBranchExists (storageRepo w) (branchOf inp) = Inr st"
    and "getInsightsFile st (input_owner inp) (input_repository inp) (branchOf inp)
           (rootDirOf inp) (formatOf inp) = Inr (content, insightsCount)"
  shows "run inp w =
    (case backfill (octokitInsights w) (daysAgo w) s c k (formatOf inp) insightsCount
            (Some content) of
       None \<Rightarrow> None
     | Some (Inl err) \<Rightarrow> Some (Inl err, st)
     | Some (Inr insightsFile') \<Rightarrow>
         Some (publishYesterday inp w st (branchOf inp) (rootDirOf inp) (formatOf inp) s c k
                 insightsFile'))"
  using assms by (simp add: run_def Let_def)

lemma backfill_json_entries:
  assumes "JSON_parse content = Inr (JArr es)" and "lessThan14 insightsCount"
    and "backfill api dateOf s c k ''json'' insightsCount (Some content)
           = Some (Inr (Some content'))"
  shows "\<exists>es'. JSON_parse content' = Inr (JArr es')
    \<and> (\<forall>e \<in> set es'. e \<in> set es \<or> (\<exists>i \<in> {2..14}. backfilledEntry api dateOf s c k i e))
    \<and> (\<forall>i \<in> {2..14}. \<exists>e \<in> set es'. backfilledEntry api dateOf s c k i e)"
proof -
  from assms(2,3) have "backfillDays api dateOf s c k ''json''
      [14, 13, 12, 11, 10, 9, 8, 7, 6, 5, 4, 3, 2] (Some content) = Inr (Some content')"
    by (simp add: backfill_def backfillLoop_14)
  from backfillDays_json [OF assms(1) this] show ?thesis
    unfolding backfill_offsets_set by blast
qed

lemma backfill_csv_lines:
  assumes "\<forall>i \<in> {2..14}. isoDate (dateOf i)" and "lessThan14 insightsCount"
    and "backfill api dateOf s c k ''csv'' insightsCount (Some content)
           = Some (Inr (Some content'))"
  shows "(\<forall>l \<in> set (csvLinesOf content'). l \<in> set (csvLinesOf content)
            \<or> (\<exists>i \<in> {2..14}. \<exists>ps. backfilledEntry api dateOf s c k i (JObj ps)
                                  \<and> l = csvLineOf ps))
    \<and> (\<forall>i \<in> {2..14}. \<exists>ps. backfilledEntry api dateOf s c k i (JObj ps)
                          \<and> csvLineOf ps \<in> set (csvLinesOf content'))"
proof -
  from assms(2,3) have days: "backfillDays api dateOf s c k ''csv''
      [14, 13, 12, 11, 10, 9, 8, 7, 6, 5, 4, 3, 2] (Some content) = Inr (Some content')"
    by (simp add: backfill_def backfillLoop_14)
  have iso: "\<forall>i \<in> set [14, 13, 12, 11, 10, 9, 8, 7, 6, 5, 4, 3, 2]. isoDate (dateOf i)"
    using assms(1) unfolding backfill_offsets_set .
  from backfillDays_csv [OF iso days] show ?thesis
    unfolding backfill_offsets_set by blast
qed


lemma backfilledLine_iff:
  "backfilledLine api dateOf s c k i l
     \<longleftrightarrow> (\<exists>ps. backfilledEntry api dateOf s c k i (JObj ps) \<and> l = csvLineOf ps)"
  by (auto simp: backfilledLine_def backfilledEntry_iff csvLineOf_newEntry split: sum.splits)

lemma run_backfill_records:
  assumes "getRepoStats (octokitInsights w) = Inr (s, c, k)"
    and "ensureBranchExists (storageRepo w) (branchOf inp) = Inr st"
    and "getInsightsFile st (input_owner inp) (input_repository inp) (branchOf inp)
           (rootDirOf inp) (formatOf inp) = Inr (content, insightsCount)"
    and "lessThan14 insightsCount"
    and "\<forall>i \<in> {2..14}. getYesterdayTraffic (octokitInsights w) (daysAgo w i) = Inr (t i)
           \<and> getYesterdayClones (octokitInsights w) (daysAgo w i) = Inr (cl i)"
  shows "run inp w =
    (case upsertAll (formatOf inp)
            (map (\<lambda>i. (s, c, k, t i, cl i, daysAgo w i))
               [14, 13, 12, 11, 10, 9, 8, 7, 6, 5, 4, 3, 2])
            (Some content) of
       Inl err \<Rightarrow> Some (Inl err, st)
     | Inr insightsFile' \<Rightarrow>
         Some (publishYesterday inp w st (branchOf inp) (rootDirOf inp) (formatOf inp) s c k
                 insightsFile'))"
proof -
  from assms(5) have "\<forall>i \<in> set [14, 13, 12, 11, 10, 9, 8, 7, 6, 5, 4, 3, 2].
      getYesterdayTraffic (octokitInsights w) (daysAgo w i) = Inr (t i)
      \<and> getYesterdayClones (octokitInsights w) (daysAgo w i) = Inr (cl i)"
    unfolding backfill_offsets_set .
  from backfillDays_upsertAll [OF this, of s c k "formatOf inp" "Some content"] assms(4)
  have "backfill (octokitInsights w) (daysAgo w) s c k (formatOf inp) insightsCount
          (Some content)
    = Some (upsertAll (formatOf inp)
            (map (\<lambda>i. (s, c, k, t i, cl i, daysAgo w i))
               [14, 13, 12, 11, 10, 9, 8, 7, 6, 5, 4, 3, 2])
            (Some content))"
    by (simp only: backfill_def backfillLoop_14 if_True)
  with run_backfill [OF assms(1-3)] show ?thesis
    by (simp only: option.case)
qed

subsection \<open>Facts about the example data\<close>

lemma csvLinesOf_header: "csvLinesOf (csvHeaderLine @ [LF]) = [csvHeaderLine]"
  by (simp add: csvLinesOf_def csvHeaderLine_def csvHeaders_def trim_def isWhiteSpace_def)

lemma header_not_date: "\<not> startsWith csvHeaderLine ''2024-01-14''"
  by (simp add: csvHeaderLine_def csvHeaders_def)

lemma isoDate_example: "isoDate ''2024-01-14''"
  by (simp add: isoDate_def isDigit_def digitValue_def)

lemma csvDataset_header: "csvDataset (csvLinesOf (csvHeaderLine @ [LF]))"
  by (simp add: csvLinesOf_header csvDataset_def)

lemma getContent_storageWithFile:
  "getContent (storageWithFile path content) path ''repository-insights'' = Inr content"
  by (simp add: getContent_def storageWithFile_def objectAt_def)

lemma getContent_missing_path:
  "getContent (storageWithFile ''elsewhere'' content) ''.insights/octo/demo/stats.json''
     ''repository-insights'' = Inl (HttpError 404)"
  by (simp add: getContent_def storageWithFile_def objectAt_def)

lemma getContent_missing_branch:
  "getContent exampleStorage ''.insights/octo/demo/stats.csv'' ''repository-insights''
     = Inl (HttpError 404)"
  by (simp add: getContent_def exampleStorage_def)

lemma statsPath_example:
  "statsPath ''.insights'' ''octo'' ''demo'' ''json'' = ''.insights/octo/demo/stats.json''"
  "statsPath ''.insights'' ''octo'' ''demo'' ''csv'' = ''.insights/octo/demo/stats.csv''"
  by (simp_all add: statsPath_def pathJoin_def)

lemma formatOf_example: "formatOf exampleInputs = ''xml''"
  by (simp add: formatOf_def exampleInputs_def toLowerCase_def lowerChar_def)

lemma branchOf_example: "branchOf exampleInputs = ''repository-insights''"
  by (simp add: branchOf_def exampleInputs_def)

lemma getRepoStats_example: "getRepoStats exampleInsights = Inr (10, 42, 2)"
  by (simp add: getRepoStats_def exampleInsights_def)

lemma ensureBranchExists_example:
  "ensureBranchExists exampleStorage ''repository-insights''
     = Inr (exampleStorage\<lparr>refs := [(''refs/heads/main'', 1),
                                      (''refs/heads/repository-insights'', 1)]\<rparr>)"
  by (simp add: ensureBranchExists_def getRef_def createRef_def exampleStorage_def)

lemma example_calendar:
  "map exampleCalendar [14, 13, 12, 11, 10, 9, 8, 7, 6, 5, 4, 3, 2]
     = [''2024-01-01'', ''2024-01-02'', ''2024-01-03'', ''2024-01-04'', ''2024-01-05'',
        ''2024-01-06'', ''2024-01-07'', ''2024-01-08'', ''2024-01-09'', ''2024-01-10'',
        ''2024-01-11'', ''2024-01-12'', ''2024-01-13'']"
  by (simp add: exampleCalendar_def intToString_def natToString.simps digitChar_def)

lemma example_traffic:
  "getYesterdayTraffic exampleInsights d
     = Inr (if d = ''2024-01-12'' then \<lparr>count = 3, uniques = 2\<rparr> else \<lparr>count = 0, uniques = 0\<rparr>)"
  by (simp add: getYesterdayTraffic_def exampleInsights_def onDate_def)

lemma example_clones: "getYesterdayClones exampleInsights d = Inr \<lparr>count = 0, uniques = 0\<rparr>"
  by (simp add: getYesterdayClones_def exampleInsights_def)

lemma example_backfill_json:
  "backfill exampleInsights exampleCalendar 10 42 2 ''json'' (Some (JNum 0))
       (Some (JSON_stringify (JArr [])))
     = Some (Inr (Some (JSON_stringify (JArr
         (map (\<lambda>d. JObj (newEntry 10 42 2
                       (if d = ''2024-01-12'' then \<lparr>count = 3, uniques = 2\<rparr>
                        else \<lparr>count = 0, uniques = 0\<rparr>)
                       \<lparr>count = 0, uniques = 0\<rparr> d))
            (map exampleCalendar [14, 13, 12, 11, 10, 9, 8, 7, 6, 5, 4, 3, 2]))))))"
  unfolding example_calendar
  by (simp add: backfill_def backfillLoop_14 backfillDay_def generateFileContent_json_text
      upsertJson_array example_traffic example_clones exampleCalendar_def intToString_def
      natToString.simps digitChar_def)

lemma example_upsertAll_csv:
  "upsertAll ''csv''
     (map (\<lambda>d. (10, 42, 2,
                 if d = ''2024-01-12'' then \<lparr>count = 3, uniques = 2\<rparr>
                 else \<lparr>count = 0, uniques = 0\<rparr>,
                 \<lparr>count = 0, uniques = 0\<rparr>, d))
        [''2024-01-01'', ''2024-01-02'', ''2024-01-03'', ''2024-01-04'', ''2024-01-05'',
         ''2024-01-06'', ''2024-01-07'', ''2024-01-08'', ''2024-01-09'', ''2024-01-10'',
         ''2024-01-11'', ''2024-01-12'', ''2024-01-13''])
     (Some (csvHeaderLine @ [LF]))
   = Inr (Some (join [LF]
       [csvHeaderLine,
        ''2024-01-01,10,42,2,0,0,0,0'', ''2024-01-02,10,42,2,0,0,0,0'',
        ''2024-01-03,10,42,2,0,0,0,0'', ''2024-01-04,10,42,2,0,0,0,0'',
        ''2024-01-05,10,42,2,0,0,0,0'', ''2024-01-06,10,42,2,0,0,0,0'',
        ''2024-01-07,10,42,2,0,0,0,0'', ''2024-01-08,10,42,2,0,0,0,0'',
        ''2024-01-09,10,42,2,0,0,0,0'', ''2024-01-10,10,42,2,0,0,0,0'',
        ''2024-01-11,10,42,2,0,0,0,0'', ''2024-01-12,10,42,2,3,2,0,0'',
        ''2024-01-13,10,42,2,0,0,0,0'']))"
  by code_simp

lemma example_records:
  "map (\<lambda>i. (10::nat, 42::nat, 2::nat,
              if exampleCalendar i = ''2024-01-12'' then \<lparr>count = 3, uniques = 2\<rparr>
              else \<lparr>count = 0::nat, uniques = 0::nat\<rparr>,
              \<lparr>count = 0::nat, uniques = 0::nat\<rparr>, exampleCalendar i))
     [14, 13, 12, 11, 10, 9, 8, 7, 6, 5, 4, 3, 2]
   = map (\<lambda>d. (10, 42, 2,
               if d = ''2024-01-12'' then \<lparr>count = 3, uniques = 2\<rparr>
               else \<lparr>count = 0, uniques = 0\<rparr>,
               \<lparr>count = 0, uniques = 0\<rparr>, d))
       [''2024-01-01'', ''2024-01-02'', ''2024-01-03'', ''2024-01-04'', ''2024-01-05'',
        ''2024-01-06'', ''2024-01-07'', ''2024-01-08'', ''2024-01-09'', ''2024-01-10'',
        ''2024-01-11'', ''2024-01-12'', ''2024-01-13'']"
  by (simp add: exampleCalendar_def intToString_def natToString.simps digitChar_def)

lemma example_backfill_upsertAll:
  "backfill exampleInsights exampleCalendar 10 42 2 fmt (Some (JNum 0)) insightsFile
     = Some (upsertAll fmt
         (map (\<lambda>d. (10, 42, 2,
                     if d = ''2024-01-12'' then \<lparr>count = 3, uniques = 2\<rparr>
                     else \<lparr>count = 0, uniques = 0\<rparr>,
                     \<lparr>count = 0, uniques = 0\<rparr>, d))
            [''2024-01-01'', ''2024-01-02'', ''2024-01-03'', ''2024-01-04'', ''2024-01-05'',
             ''2024-01-06'', ''2024-01-07'', ''2024-01-08'', ''2024-01-09'', ''2024-01-10'',
             ''2024-01-11'', ''2024-01-12'', ''2024-01-13''])
         insightsFile)"
proof -
  let ?t = "\<lambda>i. if exampleCalendar i = ''2024-01-12'' then \<lparr>count = 3, uniques = 2\<rparr>
                 else \<lparr>count = 0::nat, uniques = 0::nat\<rparr>"
  let ?cl = "\<lambda>i::int. \<lparr>count = 0::nat, uniques = 0::nat\<rparr>"
  have "\<forall>i \<in> set [14, 13, 12, 11, 10, 9, 8, 7, 6, 5, 4, 3, 2].
      getYesterdayTraffic exampleInsights (exampleCalendar i) = Inr (?t i)
      \<and> getYesterdayClones exampleInsights (exampleCalendar i) = Inr (?cl i)"
    by (simp add: example_traffic example_clones)
  from backfillDays_upsertAll [OF this, of 10 42 2 fmt insightsFile]
  show ?thesis
    unfolding example_records by (simp add: backfill_def backfillLoop_14)
qed

lemma example_backfill_csv:
  "backfill exampleInsights exampleCalendar 10 42 2 ''csv'' (Some (JNum 0))
       (Some (csvHeaderLine @ [LF]))
   = Some (Inr (Some (join [LF]
       [csvHeaderLine,
        ''2024-01-01,10,42,2,0,0,0,0'', ''2024-01-02,10,42,2,0,0,0,0'',
        ''2024-01-03,10,42,2,0,0,0,0'', ''2024-01-04,10,42,2,0,0,0,0'',
        ''2024-01-05,10,42,2,0,0,0,0'', ''2024-01-06,10,42,2,0,0,0,0'',
        ''2024-01-07,10,42,2,0,0,0,0'', ''2024-01-08,10,42,2,0,0,0,0'',
        ''2024-01-09,10,42,2,0,0,0,0'', ''2024-01-10,10,42,2,0,0,0,0'',
        ''2024-01-11,10,42,2,0,0,0,0'', ''2024-01-12,10,42,2,3,2,0,0'',
        ''2024-01-13,10,42,2,0,0,0,0''])))"
  by (simp only: example_backfill_upsertAll example_upsertAll_csv)

lemma example_dates_iso: "\<forall>i \<in> {2..14}. isoDate (exampleCalendar i)"
proof -
  have "\<forall>i \<in> set [14, 13, 12, 11, 10, 9, 8, 7, 6, 5, 4, 3, 2]. isoDate (exampleCalendar i)"
    by code_simp
  then show ?thesis unfolding backfill_offsets_set .
qed

lemma example_entries:
  "map (\<lambda>d. JObj (newEntry 10 42 2
                  (if d = ''2024-01-12'' then \<lparr>count = 3, uniques = 2\<rparr>
                   else \<lparr>count = 0, uniques = 0\<rparr>)
                  \<lparr>count = 0, uniques = 0\<rparr> d)) ds
   = map (\<lambda>d. JObj [(''date'', JStr d), (''stargazers'', JNum 10), (''commits'', JNum 42),
                    (''contributors'', JNum 2),
                    (''traffic_views'', JNum (if d = ''2024-01-12'' then 3 else 0)),
                    (''traffic_uniques'', JNum (if d = ''2024-01-12'' then 2 else 0)),
                    (''clones_count'', JNum 0), (''clones_uniques'', JNum 0)]) ds"
  by (simp add: newEntry_def)

lemma example_backfill_json_entries:
  "backfill exampleInsights exampleCalendar 10 42 2 ''json'' (Some (JNum 0)) (Some ''[]'')
   = Some (Inr (Some (JSON_stringify (JArr
       (map (\<lambda>d. JObj [(''date'', JStr d), (''stargazers'', JNum 10), (''commits'', JNum 42),
                    (''contributors'', JNum 2),
                    (''traffic_views'', JNum (if d = ''2024-01-12'' then 3 else 0)),
                    (''traffic_uniques'', JNum (if d = ''2024-01-12'' then 2 else 0)),
                    (''clones_count'', JNum 0), (''clones_uniques'', JNum 0)])
          [''2024-01-01'', ''2024-01-02'', ''2024-01-03'', ''2024-01-04'', ''2024-01-05'',
           ''2024-01-06'', ''2024-01-07'', ''2024-01-08'', ''2024-01-09'', ''2024-01-10'',
           ''2024-01-11'', ''2024-01-12'', ''2024-01-13''])))))"
  using example_backfill_json
  unfolding example_calendar example_entries JSON_stringify_empty .

lemma example_ensured_file:
  "getInsightsFile
     (exampleStorage\<lparr>refs := [(''refs/heads/main'', 1),
                              (''refs/heads/repository-insights'', 1)]\<rparr>)
     ''octo'' ''demo'' ''repository-insights'' ''.insights'' ''json''
   = Inr (''[]'', Some (JNum 0))"
proof -
  have "getContent
     (exampleStorage\<lparr>refs := [(''refs/heads/main'', 1),
                              (''refs/heads/repository-insights'', 1)]\<rparr>)
     ''.insights/octo/demo/stats.json'' ''repository-insights'' = Inl (HttpError 404)"
    by (simp add: getContent_def exampleStorage_def objectAt_def)
  from readInsightsFile_fetch_failure [OF this]
  show ?thesis
    using getInsightsFile_fallback [where format = "''json''" and rootDir = "''.insights''"
        and owner = "''octo''" and repo = "''demo''" and branch = "''repository-insights''"]
    by (simp add: statsPath_example)
qed

lemma example_defaults:
  "formatOf (exampleInputs\<lparr>input_format := []\<rparr>) = ''json''"
  "branchOf (exampleInputs\<lparr>input_format := []\<rparr>) = ''repository-insights''"
  "rootDirOf (exampleInputs\<lparr>input_format := []\<rparr>) = ''.insights''"
  "input_owner (exampleInputs\<lparr>input_format := []\<rparr>) = ''octo''"
  "input_repository (exampleInputs\<lparr>input_format := []\<rparr>) = ''demo''"
  by (simp_all add: formatOf_def branchOf_def rootDirOf_def exampleInputs_def toLowerCase_def
      lowerChar_def)

section \<open>The claims\<close>

text \<open>
  Claim C1 (upsert is idempotent per date). Whatever the file and the record, when
  \<open>generateFileContent\<close> has produced a file from them, calling it again on that file with
  the same record returns the same file: the second call overwrites the entry that the
  first call wrote or replaced, and adds nothing. This holds in the JSON format for every
  date string, and in the CSV format for every date string without a line feed, which
  covers every date that \<open>toISOString\<close> produces.
\<close>

theorem upsert_idempotent:
  "(generateFileContent (Some file) s c k t cl d ''json'' = Inr (Some file')
      \<longrightarrow> generateFileContent (Some file') s c k t cl d ''json'' = Inr (Some file'))
   \<and> (LF \<notin> set d \<longrightarrow> generateFileContent (Some file) s c k t cl d ''csv'' = Inr (Some file')
      \<longrightarrow> generateFileContent (Some file') s c k t cl d ''csv'' = Inr (Some file'))"
  using generateFileContent_json_idempotent generateFileContent_csv_idempotent by blast

theorem upsert_idempotent_witness:
  "generateFileContent (Some (JSON_stringify (JArr []))) 10 42 2 \<lparr>count = 3, uniques = 2\<rparr>
       \<lparr>count = 7, uniques = 5\<rparr> ''2024-01-14'' ''json''
     = Inr (Some (JSON_stringify (JArr [JObj (newEntry 10 42 2 \<lparr>count = 3, uniques = 2\<rparr>
                                           \<lparr>count = 7, uniques = 5\<rparr> ''2024-01-14'')])))
   \<and> generateFileContent
       (Some (JSON_stringify (JArr [JObj (newEntry 10 42 2 \<lparr>count = 3, uniques = 2\<rparr>
                                           \<lparr>count = 7, uniques = 5\<rparr> ''2024-01-14'')])))
       10 42 2 \<lparr>count = 3, uniques = 2\<rparr> \<lparr>count = 7, uniques = 5\<rparr> ''2024-01-14'' ''json''
     = Inr (Some (JSON_stringify (JArr [JObj (newEntry 10 42 2 \<lparr>count = 3, uniques = 2\<rparr>
                                           \<lparr>count = 7, uniques = 5\<rparr> ''2024-01-14'')])))
   \<and> LF \<notin> set ''2024-01-14''
   \<and> generateFileContent (Some (csvHeaderLine @ [LF])) 10 42 2 \<lparr>count = 3, uniques = 2\<rparr>
       \<lparr>count = 7, uniques = 5\<rparr> ''2024-01-14'' ''csv''
     = Inr (Some (join [LF] [csvHeaderLine, ''2024-01-14,10,42,2,3,2,7,5'']))
   \<and> generateFileContent (Some (join [LF] [csvHeaderLine, ''2024-01-14,10,42,2,3,2,7,5'']))
       10 42 2 \<lparr>count = 3, uniques = 2\<rparr> \<lparr>count = 7, uniques = 5\<rparr> ''2024-01-14'' ''csv''
     = Inr (Some (join [LF] [csvHeaderLine, ''2024-01-14,10,42,2,3,2,7,5'']))"
proof -
  let ?t = "\<lparr>count = 3, uniques = 2\<rparr>" and ?cl = "\<lparr>count = 7, uniques = 5\<rparr>"
  let ?J = "JSON_stringify (JArr [JObj (newEntry 10 42 2 ?t ?cl ''2024-01-14'')])"
  let ?C = "join [LF] [csvHeaderLine, ''2024-01-14,10,42,2,3,2,7,5'']"
  have j: "generateFileContent (Some (JSON_stringify (JArr []))) 10 42 2 ?t ?cl ''2024-01-14''
      ''json'' = Inr (Some ?J)"
    by (simp add: generateFileContent_json JSON_parse_stringify upsertJson_array)
  have line: "csvLineOf (newEntry 10 42 2 ?t ?cl ''2024-01-14'') = ''2024-01-14,10,42,2,3,2,7,5''"
    by (simp only: csvLineOf_newEntry) (simp add: natToString.simps digitChar_def)
  have c: "generateFileContent (Some (csvHeaderLine @ [LF])) 10 42 2 ?t ?cl ''2024-01-14''
      ''csv'' = Inr (Some ?C)"
    by (simp add: generateFileContent_csv csvLinesOf_header line upsertCsv_def header_not_date)
  have lf: "LF \<notin> set ''2024-01-14''" by simp
  from upsert_idempotent [of "JSON_stringify (JArr [])" 10 42 2 ?t ?cl "''2024-01-14''" ?J]
    upsert_idempotent [of "csvHeaderLine @ [LF]" 10 42 2 ?t ?cl "''2024-01-14''" ?C]
    j c lf
  show ?thesis by blast
qed

text \<open>
  Claim C6 (upsert placement). JSON: for a file that parses to an array without \<open>null\<close>
  entries, \<open>generateFileContent\<close> returns the text of an array \<open>es'\<close>, which parses back to
  \<open>es'\<close>. If some entry has the date of the record, \<open>es'\<close> is the old array with the first
  such entry, at its index \<open>i\<close>, overwritten by the record: same length, same entries at
  every other index. If no entry has that date, \<open>es'\<close> is the old array with the record
  added at the end. CSV: the same for the lines of a dataset (the header, then rows that
  start with a date) and a record with an ISO date, where the date of a line is its
  first field.
\<close>

theorem upsert_placement:
  "(JSON_parse file = Inr (JArr es) \<and> JNull \<notin> set es \<longrightarrow>
      (\<exists>es'. generateFileContent (Some file) s c k t cl d ''json''
                = Inr (Some (JSON_stringify (JArr es')))
         \<and> JSON_parse (JSON_stringify (JArr es')) = Inr (JArr es')
         \<and> (if \<exists>e \<in> set es. entryDate e = Inr (Some (JStr d))
            then \<exists>i < length es. entryDate (es ! i) = Inr (Some (JStr d))
                   \<and> (\<forall>j < i. entryDate (es ! j) \<noteq> Inr (Some (JStr d)))
                   \<and> es' = es[i := JObj (newEntry s c k t cl d)]
            else es' = es @ [JObj (newEntry s c k t cl d)])))
   \<and> (isoDate d \<and> csvDataset (csvLinesOf file) \<longrightarrow>
      (\<exists>ls'. generateFileContent (Some file) s c k t cl d ''csv'' = Inr (Some (join [LF] ls'))
         \<and> csvLinesOf (join [LF] ls') = ls'
         \<and> (if \<exists>l \<in> set (csvLinesOf file). csvDate l = d
            then \<exists>i < length (csvLinesOf file). csvDate (csvLinesOf file ! i) = d
                   \<and> (\<forall>j < i. csvDate (csvLinesOf file ! j) \<noteq> d)
                   \<and> ls' = (csvLinesOf file)[i := csvLineOf (newEntry s c k t cl d)]
            else ls' = csvLinesOf file @ [csvLineOf (newEntry s c k t cl d)])))"
proof (intro conjI impI)
  assume a: "JSON_parse file = Inr (JArr es) \<and> JNull \<notin> set es"
  then obtain es' where es': "upsertJson (JArr es) (newEntry s c k t cl d) d = Inr (JArr es')"
    "if \<exists>e \<in> set es. entryDate e = Inr (Some (JStr d))
     then \<exists>i < length es. entryDate (es ! i) = Inr (Some (JStr d))
            \<and> (\<forall>j < i. entryDate (es ! j) \<noteq> Inr (Some (JStr d)))
            \<and> es' = es[i := JObj (newEntry s c k t cl d)]
     else es' = es @ [JObj (newEntry s c k t cl d)]"
    using upsertJson_placement [of es s c k t cl d] by blast
  have "generateFileContent (Some file) s c k t cl d ''json''
      = Inr (Some (JSON_stringify (JArr es')))"
    using a es'(1) by (simp add: generateFileContent_json)
  with es'(2) show "\<exists>es'. generateFileContent (Some file) s c k t cl d ''json''
                = Inr (Some (JSON_stringify (JArr es')))
         \<and> JSON_parse (JSON_stringify (JArr es')) = Inr (JArr es')
         \<and> (if \<exists>e \<in> set es. entryDate e = Inr (Some (JStr d))
            then \<exists>i < length es. entryDate (es ! i) = Inr (Some (JStr d))
                   \<and> (\<forall>j < i. entryDate (es ! j) \<noteq> Inr (Some (JStr d)))
                   \<and> es' = es[i := JObj (newEntry s c k t cl d)]
            else es' = es @ [JObj (newEntry s c k t cl d)])"
    by (intro exI [of _ es']) (simp add: JSON_parse_stringify)
next
  assume a: "isoDate d \<and> csvDataset (csvLinesOf file)"
  let ?ls' = "upsertCsv (csvLinesOf file) (csvLineOf (newEntry s c k t cl d)) d"
  have "generateFileContent (Some file) s c k t cl d ''csv'' = Inr (Some (join [LF] ?ls'))"
    by (rule generateFileContent_csv)
  moreover have "csvLinesOf (join [LF] ?ls') = ?ls'"
    using a by (intro csvLinesOf_generateFileContent isoDate_no_LF) simp
  moreover note upsertCsv_placement [of d "csvLinesOf file" "csvLineOf (newEntry s c k t cl d)"]
  ultimately show "\<exists>ls'. generateFileContent (Some file) s c k t cl d ''csv''
           = Inr (Some (join [LF] ls'))
         \<and> csvLinesOf (join [LF] ls') = ls'
         \<and> (if \<exists>l \<in> set (csvLinesOf file). csvDate l = d
            then \<exists>i < length (csvLinesOf file). csvDate (csvLinesOf file ! i) = d
                   \<and> (\<forall>j < i. csvDate (csvLinesOf file ! j) \<noteq> d)
                   \<and> ls' = (csvLinesOf file)[i := csvLineOf (newEntry s c k t cl d)]
            else ls' = csvLinesOf file @ [csvLineOf (newEntry s c k t cl d)])"
    using a by (intro exI [of _ ?ls']) simp
qed

theorem upsert_placement_witness:
  "JSON_parse (JSON_stringify (JArr [JObj (newEntry 10 42 2 \<lparr>count = 3, uniques = 2\<rparr>
        \<lparr>count = 7, uniques = 5\<rparr> ''2024-01-01'')]))
     = Inr (JArr [JObj (newEntry 10 42 2 \<lparr>count = 3, uniques = 2\<rparr>
        \<lparr>count = 7, uniques = 5\<rparr> ''2024-01-01'')])
   \<and> JNull \<notin> set [JObj (newEntry 10 42 2 \<lparr>count = 3, uniques = 2\<rparr>
        \<lparr>count = 7, uniques = 5\<rparr> ''2024-01-01'')]
   \<and> generateFileContent
        (Some (JSON_stringify (JArr [JObj (newEntry 10 42 2 \<lparr>count = 3, uniques = 2\<rparr>
           \<lparr>count = 7, uniques = 5\<rparr> ''2024-01-01'')])))
        15 42 2 \<lparr>count = 3, uniques = 2\<rparr> \<lparr>count = 7, uniques = 5\<rparr> ''2024-01-01'' ''json''
     = Inr (Some (JSON_stringify (JArr [JObj (newEntry 15 42 2 \<lparr>count = 3, uniques = 2\<rparr>
           \<lparr>count = 7, uniques = 5\<rparr> ''2024-01-01'')])))
   \<and> isoDate ''2024-01-14''
   \<and> csvDataset (csvLinesOf (csvHeaderLine @ [LF]))
   \<and> generateFileContent (Some (csvHeaderLine @ [LF])) 15 42 2 \<lparr>count = 3, uniques = 2\<rparr>
        \<lparr>count = 7, uniques = 5\<rparr> ''2024-01-14'' ''csv''
     = Inr (Some (join [LF] [csvHeaderLine, csvLineOf (newEntry 15 42 2
           \<lparr>count = 3, uniques = 2\<rparr> \<lparr>count = 7, uniques = 5\<rparr> ''2024-01-14'')]))"
proof -
  let ?t = "\<lparr>count = 3, uniques = 2\<rparr>" and ?cl = "\<lparr>count = 7, uniques = 5\<rparr>"
  let ?old = "JObj (newEntry 10 42 2 ?t ?cl ''2024-01-01'')"
  have p: "JSON_parse (JSON_stringify (JArr [?old])) = Inr (JArr [?old])"
    by (rule JSON_parse_stringify)
  have n: "JNull \<notin> set [?old]" by simp
  have d: "entryDate ?old = Inr (Some (JStr ''2024-01-01''))" by (rule entryDate_newEntry)
  have hd: "csvDate csvHeaderLine \<noteq> ''2024-01-14''" by (simp add: csvDate_header)
  note j = upsert_placement [of "JSON_stringify (JArr [?old])" "[?old]" 15 42 2 ?t ?cl
      "''2024-01-01''", THEN conjunct1, rule_format, OF conjI [OF p n]]
  note c = upsert_placement [of "csvHeaderLine @ [LF]" _ 15 42 2 ?t ?cl "''2024-01-14''",
      THEN conjunct2, rule_format, OF conjI [OF isoDate_example csvDataset_header]]
  from j d have "generateFileContent (Some (JSON_stringify (JArr [?old]))) 15 42 2 ?t ?cl
      ''2024-01-01'' ''json''
     = Inr (Some (JSON_stringify (JArr [JObj (newEntry 15 42 2 ?t ?cl ''2024-01-01'')])))"
    by auto
  moreover from c hd have "generateFileContent (Some (csvHeaderLine @ [LF])) 15 42 2 ?t ?cl
      ''2024-01-14'' ''csv''
     = Inr (Some (join [LF] [csvHeaderLine,
          csvLineOf (newEntry 15 42 2 ?t ?cl ''2024-01-14'')]))"
    by (auto simp: csvLinesOf_header)
  ultimately show ?thesis
    using p n isoDate_example csvDataset_header by blast
qed

text \<open>
  Claim C2 (date uniqueness is an invariant). JSON: when the file parses to an array in
  which no two entries have the same date, then after any sequence of calls of
  \<open>generateFileContent\<close>, each on the result of the one before, the file parses to an
  array with the same property. CSV: when the lines of the file are a dataset (the
  header, then rows that start with an ISO date) in which no two lines have the same
  first field, the same holds after any sequence of calls with ISO dates. The empty files
  of both formats satisfy the assumptions.
\<close>

theorem dates_stay_unique:
  "(JSON_parse file = Inr (JArr es) \<and> uniqueDatesJson es
      \<and> upsertAll ''json'' rs (Some file) = Inr (Some file')
      \<longrightarrow> (\<exists>es'. JSON_parse file' = Inr (JArr es') \<and> uniqueDatesJson es'))
   \<and> (csvDataset (csvLinesOf file) \<and> uniqueDatesCsv (csvLinesOf file)
      \<and> (\<forall>(s, c, k, t, cl, d) \<in> set rs. isoDate d)
      \<and> upsertAll ''csv'' rs (Some file) = Inr (Some file')
      \<longrightarrow> csvDataset (csvLinesOf file') \<and> uniqueDatesCsv (csvLinesOf file'))"
  using upsertAll_json_unique [of "file" es rs file'] upsertAll_csv_unique [of "file" rs file']
  by blast

theorem dates_stay_unique_witness:
  "JSON_parse ''[]'' = Inr (JArr [])
   \<and> uniqueDatesJson []
   \<and> upsertAll ''json''
        [(10, 42, 2, \<lparr>count = 3, uniques = 2\<rparr>, \<lparr>count = 7, uniques = 5\<rparr>, ''2024-01-13''),
         (11, 42, 2, \<lparr>count = 4, uniques = 3\<rparr>, \<lparr>count = 0, uniques = 0\<rparr>, ''2024-01-14''),
         (12, 43, 2, \<lparr>count = 5, uniques = 4\<rparr>, \<lparr>count = 8, uniques = 6\<rparr>, ''2024-01-13'')]
        (Some ''[]'')
     = Inr (Some (JSON_stringify (JArr
         [JObj (newEntry 12 43 2 \<lparr>count = 5, uniques = 4\<rparr> \<lparr>count = 8, uniques = 6\<rparr>
                  ''2024-01-13''),
          JObj (newEntry 11 42 2 \<lparr>count = 4, uniques = 3\<rparr> \<lparr>count = 0, uniques = 0\<rparr>
                  ''2024-01-14'')])))
   \<and> (\<exists>es'. JSON_parse (JSON_stringify (JArr
         [JObj (newEntry 12 43 2 \<lparr>count = 5, uniques = 4\<rparr> \<lparr>count = 8, uniques = 6\<rparr>
                  ''2024-01-13''),
          JObj (newEntry 11 42 2 \<lparr>count = 4, uniques = 3\<rparr> \<lparr>count = 0, uniques = 0\<rparr>
                  ''2024-01-14'')])) = Inr (JArr es') \<and> uniqueDatesJson es')
   \<and> csvDataset (csvLinesOf (csvHeaderLine @ [LF]))
   \<and> uniqueDatesCsv (csvLinesOf (csvHeaderLine @ [LF]))
   \<and> upsertAll ''csv''
        [(10, 42, 2, \<lparr>count = 3, uniques = 2\<rparr>, \<lparr>count = 7, uniques = 5\<rparr>, ''2024-01-13''),
         (11, 42, 2, \<lparr>count = 4, uniques = 3\<rparr>, \<lparr>count = 0, uniques = 0\<rparr>, ''2024-01-14''),
         (12, 43, 2, \<lparr>count = 5, uniques = 4\<rparr>, \<lparr>count = 8, uniques = 6\<rparr>, ''2024-01-13'')]
        (Some (csvHeaderLine @ [LF]))
     = Inr (Some (join [LF]
         [csvHeaderLine, ''2024-01-13,12,43,2,5,4,8,6'', ''2024-01-14,11,42,2,4,3,0,0'']))
   \<and> csvDataset (csvLinesOf (join [LF]
         [csvHeaderLine, ''2024-01-13,12,43,2,5,4,8,6'', ''2024-01-14,11,42,2,4,3,0,0'']))
   \<and> uniqueDatesCsv (csvLinesOf (join [LF]
         [csvHeaderLine, ''2024-01-13,12,43,2,5,4,8,6'', ''2024-01-14,11,42,2,4,3,0,0'']))"
proof -
  let ?rs = "[(10, 42, 2, \<lparr>count = 3, uniques = 2\<rparr>, \<lparr>count = 7, uniques = 5\<rparr>, ''2024-01-13''),
         (11, 42, 2, \<lparr>count = 4, uniques = 3\<rparr>, \<lparr>count = 0, uniques = 0\<rparr>, ''2024-01-14''),
         (12::nat, 43::nat, 2::nat, \<lparr>count = 5, uniques = 4\<rparr>, \<lparr>count = 8, uniques = 6\<rparr>,
          ''2024-01-13'')]"
  let ?J = "JSON_stringify (JArr
         [JObj (newEntry 12 43 2 \<lparr>count = 5, uniques = 4\<rparr> \<lparr>count = 8, uniques = 6\<rparr>
                  ''2024-01-13''),
          JObj (newEntry 11 42 2 \<lparr>count = 4, uniques = 3\<rparr> \<lparr>count = 0, uniques = 0\<rparr>
                  ''2024-01-14'')])"
  let ?C = "join [LF]
         [csvHeaderLine, ''2024-01-13,12,43,2,5,4,8,6'', ''2024-01-14,11,42,2,4,3,0,0'']"
  have p: "JSON_parse ''[]'' = Inr (JArr [])" by code_simp
  have u: "uniqueDatesJson []" by code_simp
  have j: "upsertAll ''json'' ?rs (Some ''[]'') = Inr (Some ?J)" by code_simp
  have d: "csvDataset (csvLinesOf (csvHeaderLine @ [LF]))" by (rule csvDataset_header)
  have q: "uniqueDatesCsv (csvLinesOf (csvHeaderLine @ [LF]))"
    by (simp add: csvLinesOf_header uniqueDatesCsv_def)
  have i: "\<forall>(s, c, k, t, cl, d) \<in> set ?rs. isoDate d" by code_simp
  have c: "upsertAll ''csv'' ?rs (Some (csvHeaderLine @ [LF])) = Inr (Some ?C)" by code_simp
  from dates_stay_unique [of "''[]''" "[]" ?rs ?J, THEN conjunct1] p u j
  have "\<exists>es'. JSON_parse ?J = Inr (JArr es') \<and> uniqueDatesJson es'" by blast
  moreover
  from dates_stay_unique [of "csvHeaderLine @ [LF]" _ ?rs ?C, THEN conjunct2] d q i c
  have "csvDataset (csvLinesOf ?C) \<and> uniqueDatesCsv (csvLinesOf ?C)" by blast
  ultimately show ?thesis using p u j d q c by blast
qed

text \<open>
  Claim C7 (serialization round trip). JSON: the text that \<open>JSON.stringify(data, null, 2)\<close>
  writes for an array parses back to that array, and \<open>getInsightsFile\<close>, reading that text
  from the branch, returns it with the number of entries as count. CSV: joining the lines
  of a dataset (the header, then rows that start with an ISO date and hold no line feed)
  with line feeds and splitting the text again, blank lines dropped, gives the same
  lines, and \<open>getInsightsFile\<close> returns that text with the number of rows as count.
\<close>

theorem encode_decode_round_trip:
  "JSON_parse (JSON_stringify (JArr es)) = Inr (JArr es)
   \<and> (getContent st path branch = Inr (JSON_stringify (JArr es)) \<longrightarrow>
        readInsightsFile st path branch ''json''
          = Inr (JSON_stringify (JArr es), Some (JNum (int (length es)))))
   \<and> (csvDataset ls \<longrightarrow> csvLinesOf (join [LF] ls) = ls)
   \<and> (csvDataset ls \<and> getContent st path branch = Inr (join [LF] ls) \<longrightarrow>
        readInsightsFile st path branch ''csv''
          = Inr (join [LF] ls, Some (JNum (int (length ls) - 1))))"
  using JSON_parse_stringify [of "JArr es"] readInsightsFile_json [of st path branch es]
    readInsightsFile_csv [of st path branch ls] csvLinesOf_dataset [of ls]
  by blast

theorem encode_decode_round_trip_witness:
  "getContent
      (storageWithFile ''.insights/octo/demo/stats.json''
         (JSON_stringify (JArr [JObj (newEntry 10 42 2 \<lparr>count = 3, uniques = 2\<rparr>
            \<lparr>count = 7, uniques = 5\<rparr> ''2024-01-13'')])))
      ''.insights/octo/demo/stats.json'' ''repository-insights''
     = Inr (JSON_stringify (JArr [JObj (newEntry 10 42 2 \<lparr>count = 3, uniques = 2\<rparr>
            \<lparr>count = 7, uniques = 5\<rparr> ''2024-01-13'')]))
   \<and> readInsightsFile
      (storageWithFile ''.insights/octo/demo/stats.json''
         (JSON_stringify (JArr [JObj (newEntry 10 42 2 \<lparr>count = 3, uniques = 2\<rparr>
            \<lparr>count = 7, uniques = 5\<rparr> ''2024-01-13'')])))
      ''.insights/octo/demo/stats.json'' ''repository-insights'' ''json''
     = Inr (JSON_stringify (JArr [JObj (newEntry 10 42 2 \<lparr>count = 3, uniques = 2\<rparr>
            \<lparr>count = 7, uniques = 5\<rparr> ''2024-01-13'')]), Some (JNum 1))
   \<and> csvDataset [csvHeaderLine, ''2024-01-13,10,42,2,3,2,7,5'']
   \<and> csvLinesOf (join [LF] [csvHeaderLine, ''2024-01-13,10,42,2,3,2,7,5''])
     = [csvHeaderLine, ''2024-01-13,10,42,2,3,2,7,5'']
   \<and> getContent
      (storageWithFile ''.insights/octo/demo/stats.csv''
         (join [LF] [csvHeaderLine, ''2024-01-13,10,42,2,3,2,7,5'']))
      ''.insights/octo/demo/stats.csv'' ''repository-insights''
     = Inr (join [LF] [csvHeaderLine, ''2024-01-13,10,42,2,3,2,7,5''])
   \<and> readInsightsFile
      (storageWithFile ''.insights/octo/demo/stats.csv''
         (join [LF] [csvHeaderLine, ''2024-01-13,10,42,2,3,2,7,5'']))
      ''.insights/octo/demo/stats.csv'' ''repository-insights'' ''csv''
     = Inr (join [LF] [csvHeaderLine, ''2024-01-13,10,42,2,3,2,7,5''], Some (JNum 1))"
proof -
  let ?es = "[JObj (newEntry 10 42 2 \<lparr>count = 3, uniques = 2\<rparr> \<lparr>count = 7, uniques = 5\<rparr>
                ''2024-01-13'')]"
  let ?ls = "[csvHeaderLine, ''2024-01-13,10,42,2,3,2,7,5'']"
  let ?pj = "''.insights/octo/demo/stats.json''" and ?pc = "''.insights/octo/demo/stats.csv''"
  have gj: "getContent (storageWithFile ?pj (JSON_stringify (JArr ?es))) ?pj
      ''repository-insights'' = Inr (JSON_stringify (JArr ?es))"
    by (rule getContent_storageWithFile)
  have gc: "getContent (storageWithFile ?pc (join [LF] ?ls)) ?pc ''repository-insights''
      = Inr (join [LF] ?ls)"
    by (rule getContent_storageWithFile)
  have ds: "csvDataset ?ls" by code_simp
  note rt = encode_decode_round_trip [of ?es "storageWithFile ?pj (JSON_stringify (JArr ?es))"
      ?pj "''repository-insights''"]
  note rc = encode_decode_round_trip [of _ "storageWithFile ?pc (join [LF] ?ls)"
      ?pc "''repository-insights''" ?ls]
  from rt gj have "readInsightsFile (storageWithFile ?pj (JSON_stringify (JArr ?es))) ?pj
      ''repository-insights'' ''json'' = Inr (JSON_stringify (JArr ?es), Some (JNum 1))"
    by simp
  moreover from rc ds gc have "csvLinesOf (join [LF] ?ls) = ?ls"
    and "readInsightsFile (storageWithFile ?pc (join [LF] ?ls)) ?pc ''repository-insights''
      ''csv'' = Inr (join [LF] ?ls, Some (JNum 1))"
    by simp_all
  ultimately show ?thesis using gj gc ds by blast
qed

text \<open>
  Claim C5 (missing-file fallback). When the content request for the statistics file is
  answered with 404 and the format is \<open>json\<close> or \<open>csv\<close>, \<open>getInsightsFile\<close> does not throw: it
  returns the count 0 together with the text \<open>[]\<close>, which parses to the empty array, for
  JSON, and with the header line followed by a line feed, whose only line is the header,
  for CSV.
\<close>

theorem missing_file_fallback:
  "(getContent st (statsPath rootDir owner repo format) branch = Inl (HttpError 404)
      \<and> (format = ''json'' \<or> format = ''csv'')
      \<longrightarrow> getInsightsFile st owner repo branch rootDir format
            = Inr (if format = ''json'' then ''[]'' else csvHeaderLine @ [LF], Some (JNum 0)))
   \<and> JSON_parse ''[]'' = Inr (JArr [])
   \<and> csvLinesOf (csvHeaderLine @ [LF]) = [csvHeaderLine]"
  using getInsightsFile_fallback [OF readInsightsFile_fetch_failure, of st rootDir owner repo
      format branch "HttpError 404"]
    JSON_parse_empty csvLinesOf_header
  by blast

theorem missing_file_fallback_witness:
  "getContent (storageWithFile ''elsewhere'' ''some text'')
       (statsPath ''.insights'' ''octo'' ''demo'' ''json'') ''repository-insights''
     = Inl (HttpError 404)
   \<and> getInsightsFile (storageWithFile ''elsewhere'' ''some text'') ''octo'' ''demo''
       ''repository-insights'' ''.insights'' ''json''
     = Inr (''[]'', Some (JNum 0))
   \<and> getContent exampleStorage (statsPath ''.insights'' ''octo'' ''demo'' ''csv'')
       ''repository-insights''
     = Inl (HttpError 404)
   \<and> getInsightsFile exampleStorage ''octo'' ''demo'' ''repository-insights'' ''.insights''
       ''csv''
     = Inr (csvHeaderLine @ [LF], Some (JNum 0))"
proof -
  have a: "getContent (storageWithFile ''elsewhere'' ''some text'')
       (statsPath ''.insights'' ''octo'' ''demo'' ''json'') ''repository-insights''
     = Inl (HttpError 404)"
    by (simp only: statsPath_example getContent_missing_path)
  have b: "getContent exampleStorage (statsPath ''.insights'' ''octo'' ''demo'' ''csv'')
       ''repository-insights'' = Inl (HttpError 404)"
    by (simp only: statsPath_example getContent_missing_branch)
  from missing_file_fallback [of "storageWithFile ''elsewhere'' ''some text''" "''.insights''"
      "''octo''" "''demo''" "''json''" "''repository-insights''"] a
  have "getInsightsFile (storageWithFile ''elsewhere'' ''some text'') ''octo'' ''demo''
       ''repository-insights'' ''.insights'' ''json'' = Inr (''[]'', Some (JNum 0))"
    by simp
  moreover
  from missing_file_fallback [of exampleStorage "''.insights''" "''octo''" "''demo''" "''csv''"
      "''repository-insights''"] b
  have "getInsightsFile exampleStorage ''octo'' ''demo'' ''repository-insights'' ''.insights''
       ''csv'' = Inr (csvHeaderLine @ [LF], Some (JNum 0))"
    by simp
  ultimately show ?thesis using a b by blast
qed

text \<open>
  Claim C4 (only the not-found condition is recovered) does not hold of the code: the
  \<open>catch\<close> of \<open>getInsightsFile\<close> takes every exception. With a content request refused with
  status 403, and with a stored file that is not JSON, \<open>getInsightsFile\<close> returns the empty
  dataset and the count 0 where the claim, and the comment \<open>If file doesn't exist\<close> above
  the fallback, expect the failure to leave the function.
\<close>

theorem getInsightsFile_swallows_failures:
  "getContent (deniedStorage ''.insights/octo/demo/stats.json'' ''[]'')
       ''.insights/octo/demo/stats.json'' ''repository-insights''
     = Inl (HttpError 403)
   \<and> getInsightsFile (deniedStorage ''.insights/octo/demo/stats.json'' ''[]'') ''octo'' ''demo''
       ''repository-insights'' ''.insights'' ''json''
     = Inr (''[]'', Some (JNum 0))
   \<and> getContent (storageWithFile ''.insights/octo/demo/stats.json'' ''not json'')
       ''.insights/octo/demo/stats.json'' ''repository-insights''
     = Inr ''not json''
   \<and> JSON_parse ''not json'' = Inl SyntaxError
   \<and> getInsightsFile (storageWithFile ''.insights/octo/demo/stats.json'' ''not json'') ''octo''
       ''demo'' ''repository-insights'' ''.insights'' ''json''
     = Inr (''[]'', Some (JNum 0))"
proof -
  have a: "getContent (deniedStorage ''.insights/octo/demo/stats.json'' ''[]'')
       ''.insights/octo/demo/stats.json'' ''repository-insights'' = Inl (HttpError 403)"
    by (simp add: getContent_def deniedStorage_def)
  have b: "getContent (storageWithFile ''.insights/octo/demo/stats.json'' ''not json'')
       ''.insights/octo/demo/stats.json'' ''repository-insights'' = Inr ''not json''"
    by (rule getContent_storageWithFile)
  have c: "JSON_parse ''not json'' = Inl SyntaxError"
    by code_simp
  have "getInsightsFile (deniedStorage ''.insights/octo/demo/stats.json'' ''[]'') ''octo''
       ''demo'' ''repository-insights'' ''.insights'' ''json'' = Inr (''[]'', Some (JNum 0))"
    using getInsightsFile_fallback [OF readInsightsFile_fetch_failure,
        of "deniedStorage ''.insights/octo/demo/stats.json'' ''[]''" "''.insights''" "''octo''"
          "''demo''" "''json''" "''repository-insights''" "HttpError 403"] a
    by (simp add: statsPath_example)
  moreover
  have "readInsightsFile (storageWithFile ''.insights/octo/demo/stats.json'' ''not json'')
       ''.insights/octo/demo/stats.json'' ''repository-insights'' ''json'' = Inl SyntaxError"
    by (simp add: readInsightsFile_def b c)
  then have "getInsightsFile (storageWithFile ''.insights/octo/demo/stats.json'' ''not json'')
       ''octo'' ''demo'' ''repository-insights'' ''.insights'' ''json''
     = Inr (''[]'', Some (JNum 0))"
    using getInsightsFile_fallback [of
        "storageWithFile ''.insights/octo/demo/stats.json'' ''not json''" "''.insights''"
        "''octo''" "''demo''" "''json''" "''repository-insights''" SyntaxError]
    by (simp add: statsPath_example)
  ultimately show ?thesis using a b c by blast
qed

text \<open>
  Claim C9 (branch provisioning). When the request for the reference of the branch fails
  with 404 and the reference of \<open>main\<close> resolves, \<open>ensureBranchExists\<close> is the creation of
  \<open>refs/heads/branch\<close> at the commit of \<open>main\<close>; when the branch does not exist and the API
  accepts the requests, that creation succeeds, changes nothing else, and the branch then
  resolves to the commit of \<open>main\<close>. When the reference of the branch resolves, the
  repository is returned as it is. After a call that succeeded, a second call returns the
  repository unchanged.
\<close>

theorem ensureBranchExists_provisions:
  "(getRef st (''heads/'' @ branch) = Inl (HttpError 404)
      \<and> getRef st ''heads/main'' = Inr mainSha
      \<longrightarrow> ensureBranchExists st branch = createRef st (''refs/heads/'' @ branch) mainSha)
   \<and> (rejects st (GetRef (''heads/'' @ branch)) = None
      \<and> map_of (refs st) (''refs/heads/'' @ branch) = None
      \<and> getRef st ''heads/main'' = Inr mainSha
      \<and> rejects st (CreateRef (''refs/heads/'' @ branch)) = None
      \<longrightarrow> getRef st (''heads/'' @ branch) = Inl (HttpError 404)
          \<and> ensureBranchExists st branch
              = Inr (st\<lparr>refs := refs st @ [(''refs/heads/'' @ branch, mainSha)]\<rparr>)
          \<and> getRef (st\<lparr>refs := refs st @ [(''refs/heads/'' @ branch, mainSha)]\<rparr>)
               (''heads/'' @ branch) = Inr mainSha)
   \<and> (getRef st (''heads/'' @ branch) = Inr s \<longrightarrow> ensureBranchExists st branch = Inr st)
   \<and> (rejects st (GetRef (''heads/'' @ branch)) = None
      \<and> ensureBranchExists st branch = Inr st'
      \<longrightarrow> ensureBranchExists st' branch = Inr st')"
proof (intro conjI impI)
  assume "getRef st (''heads/'' @ branch) = Inl (HttpError 404)
      \<and> getRef st ''heads/main'' = Inr mainSha"
  then show "ensureBranchExists st branch = createRef st (''refs/heads/'' @ branch) mainSha"
    by (simp add: ensureBranchExists_not_found)
next
  assume a: "rejects st (GetRef (''heads/'' @ branch)) = None
      \<and> map_of (refs st) (''refs/heads/'' @ branch) = None
      \<and> getRef st ''heads/main'' = Inr mainSha
      \<and> rejects st (CreateRef (''refs/heads/'' @ branch)) = None"
  then show nf: "getRef st (''heads/'' @ branch) = Inl (HttpError 404)"
    by (intro getRef_missing) simp_all
  from a nf show "ensureBranchExists st branch
      = Inr (st\<lparr>refs := refs st @ [(''refs/heads/'' @ branch, mainSha)]\<rparr>)"
    by (simp add: ensureBranchExists_not_found createRef_new)
  from a show "getRef (st\<lparr>refs := refs st @ [(''refs/heads/'' @ branch, mainSha)]\<rparr>)
      (''heads/'' @ branch) = Inr mainSha"
    by (simp add: getRef_Inr map_add_def)
next
  assume "getRef st (''heads/'' @ branch) = Inr s"
  then show "ensureBranchExists st branch = Inr st" by (rule ensureBranchExists_found)
next
  assume "rejects st (GetRef (''heads/'' @ branch)) = None
      \<and> ensureBranchExists st branch = Inr st'"
  then show "ensureBranchExists st' branch = Inr st'"
    using ensureBranchExists_again by blast
qed

theorem ensureBranchExists_provisions_witness:
  "getRef exampleStorage ''heads/new-branch'' = Inl (HttpError 404)
   \<and> getRef exampleStorage ''heads/main'' = Inr 1
   \<and> ensureBranchExists exampleStorage ''new-branch''
       = Inr (exampleStorage\<lparr>refs := [(''refs/heads/main'', 1), (''refs/heads/new-branch'', 1)]\<rparr>)
   \<and> getRef (exampleStorage\<lparr>refs := [(''refs/heads/main'', 1), (''refs/heads/new-branch'', 1)]\<rparr>)
       ''heads/new-branch'' = Inr 1
   \<and> ensureBranchExists
       (exampleStorage\<lparr>refs := [(''refs/heads/main'', 1), (''refs/heads/new-branch'', 1)]\<rparr>)
       ''new-branch''
       = Inr (exampleStorage\<lparr>refs := [(''refs/heads/main'', 1), (''refs/heads/new-branch'', 1)]\<rparr>)"
proof -
  let ?st' = "exampleStorage\<lparr>refs := [(''refs/heads/main'', 1), (''refs/heads/new-branch'', 1)]\<rparr>"
  have r: "rejects exampleStorage (GetRef (''heads/'' @ ''new-branch'')) = None"
    "rejects exampleStorage (CreateRef (''refs/heads/'' @ ''new-branch'')) = None"
    by (simp_all add: exampleStorage_def)
  have m: "map_of (refs exampleStorage) (''refs/heads/'' @ ''new-branch'') = None"
    by (simp add: exampleStorage_def)
  have g: "getRef exampleStorage ''heads/main'' = Inr 1"
    by (simp add: getRef_def exampleStorage_def)
  have upd: "exampleStorage\<lparr>refs := refs exampleStorage @ [(''refs/heads/'' @ ''new-branch'', 1)]\<rparr>
      = ?st'"
    by (simp add: exampleStorage_def)
  note inst = ensureBranchExists_provisions [of exampleStorage "''new-branch''" 1 1 ?st']
  from inst r m g upd have first: "getRef exampleStorage ''heads/new-branch'' = Inl (HttpError 404)"
    "ensureBranchExists exampleStorage ''new-branch'' = Inr ?st'"
    "getRef ?st' ''heads/new-branch'' = Inr 1"
    by simp_all
  with inst r have "ensureBranchExists ?st' ''new-branch'' = Inr ?st'" by simp
  with first g show ?thesis by blast
qed

text \<open>
  Claim C8 (an unsupported format aborts before any remote mutation) does not hold as
  stated: \<open>run\<close> calls \<open>ensureBranchExists\<close> before \<open>getInsightsFile\<close>, the first place that
  looks at the format. In the example the format is \<open>xml\<close> and the branch is missing: the
  run fails with the unsupported-format error, and the branch has been created.
\<close>

theorem unsupported_format_counterexample:
  "formatOf exampleInputs = ''xml''
   \<and> run exampleInputs exampleWorld
       = Some (Inl UnsupportedFormat,
               exampleStorage\<lparr>refs := [(''refs/heads/main'', 1),
                                        (''refs/heads/repository-insights'', 1)]\<rparr>)
   \<and> refs (exampleStorage\<lparr>refs := [(''refs/heads/main'', 1),
                                    (''refs/heads/repository-insights'', 1)]\<rparr>)
       \<noteq> refs (storageRepo exampleWorld)"
proof -
  have "run exampleInputs exampleWorld
       = Some (Inl UnsupportedFormat,
               exampleStorage\<lparr>refs := [(''refs/heads/main'', 1),
                                        (''refs/heads/repository-insights'', 1)]\<rparr>)"
    by (simp add: run_unsupported formatOf_example branchOf_example exampleWorld_def
        getRepoStats_example ensureBranchExists_example)
  moreover have "refs (exampleStorage\<lparr>refs := [(''refs/heads/main'', 1),
                                    (''refs/heads/repository-insights'', 1)]\<rparr>)
       \<noteq> refs (storageRepo exampleWorld)"
    by (simp add: exampleWorld_def exampleStorage_def)
  ultimately show ?thesis using formatOf_example by blast
qed

text \<open>
  Claim C8 as amended. For every run whose format, lower-cased and with \<open>json\<close> for an empty
  input, is neither \<open>json\<close> nor \<open>csv\<close>: the run fails, with the unsupported-format error
  whenever the statistics request and the branch provisioning succeed; no blob, tree or
  commit is created; and the repository is left as it was, or with the one new reference
  of the target branch at the commit of \<open>main\<close> when that branch did not resolve.
\<close>

theorem unsupported_format_aborts:
  "formatOf inp \<noteq> ''json'' \<and> formatOf inp \<noteq> ''csv'' \<longrightarrow>
     (\<exists>err st'. run inp w = Some (Inl err, st')
        \<and> objects st' = objects (storageRepo w)
        \<and> (st' = storageRepo w
           \<or> (\<exists>mainSha. getRef (storageRepo w) (''heads/'' @ branchOf inp) = Inl (HttpError 404)
                 \<and> getRef (storageRepo w) ''heads/main'' = Inr mainSha
                 \<and> map_of (refs (storageRepo w)) (''refs/heads/'' @ branchOf inp) = None
                 \<and> st' = (storageRepo w)\<lparr>refs := refs (storageRepo w)
                            @ [(''refs/heads/'' @ branchOf inp, mainSha)]\<rparr>))
        \<and> ((\<exists>stats. getRepoStats (octokitInsights w) = Inr stats)
             \<and> (\<exists>st. ensureBranchExists (storageRepo w) (branchOf inp) = Inr st)
           \<longrightarrow> err = UnsupportedFormat))"
proof
  assume a: "formatOf inp \<noteq> ''json'' \<and> formatOf inp \<noteq> ''csv''"
  then have run: "run inp w =
    (case getRepoStats (octokitInsights w) of
       Inl err \<Rightarrow> Some (Inl err, storageRepo w)
     | Inr stats \<Rightarrow>
         (case ensureBranchExists (storageRepo w) (branchOf inp) of
            Inl err \<Rightarrow> Some (Inl err, storageRepo w)
          | Inr st \<Rightarrow> Some (Inl UnsupportedFormat, st)))"
    by (simp add: run_unsupported)
  show "\<exists>err st'. run inp w = Some (Inl err, st')
        \<and> objects st' = objects (storageRepo w)
        \<and> (st' = storageRepo w
           \<or> (\<exists>mainSha. getRef (storageRepo w) (''heads/'' @ branchOf inp) = Inl (HttpError 404)
                 \<and> getRef (storageRepo w) ''heads/main'' = Inr mainSha
                 \<and> map_of (refs (storageRepo w)) (''refs/heads/'' @ branchOf inp) = None
                 \<and> st' = (storageRepo w)\<lparr>refs := refs (storageRepo w)
                            @ [(''refs/heads/'' @ branchOf inp, mainSha)]\<rparr>))
        \<and> ((\<exists>stats. getRepoStats (octokitInsights w) = Inr stats)
             \<and> (\<exists>st. ensureBranchExists (storageRepo w) (branchOf inp) = Inr st)
           \<longrightarrow> err = UnsupportedFormat)"
  proof (cases "getRepoStats (octokitInsights w)")
    case (Inl err)
    with run show ?thesis by simp
  next
    case (Inr stats)
    show ?thesis
    proof (cases "ensureBranchExists (storageRepo w) (branchOf inp)")
      case (Inl err)
      with run Inr show ?thesis by simp
    next
      case st: (Inr st)
      with run Inr have r: "run inp w = Some (Inl UnsupportedFormat, st)" by simp
      from st show ?thesis
      proof (cases rule: ensureBranchExists_cases)
        case kept
        with r show ?thesis by simp
      next
        case (created mainSha)
        with r show ?thesis by simp
      qed
    qed
  qed
qed

theorem unsupported_format_aborts_witness:
  "formatOf exampleInputs \<noteq> ''json'' \<and> formatOf exampleInputs \<noteq> ''csv''
   \<and> (\<exists>err st'. run exampleInputs exampleWorld = Some (Inl err, st')
        \<and> objects st' = objects (storageRepo exampleWorld)
        \<and> err = UnsupportedFormat)"
proof -
  have f: "formatOf exampleInputs \<noteq> ''json'' \<and> formatOf exampleInputs \<noteq> ''csv''"
    by (simp add: formatOf_example)
  have "\<exists>stats. getRepoStats (octokitInsights exampleWorld) = Inr stats"
    by (simp add: exampleWorld_def getRepoStats_example)
  moreover have "\<exists>st. ensureBranchExists (storageRepo exampleWorld) (branchOf exampleInputs)
      = Inr st"
    by (simp add: exampleWorld_def branchOf_example ensureBranchExists_example)
  ultimately show ?thesis
    using unsupported_format_aborts [of exampleInputs exampleWorld] f by blast
qed

text \<open>
  Claim C3 (the backfill threshold is all or nothing). For a loaded count \<open>n\<close>, the block
  of lines 61 to 98 always returns. When \<open>14 \<le> n\<close> it returns the file untouched: no call
  of \<open>generateFileContent\<close> is made. When \<open>n < 14\<close> and the metrics API answers for the
  dates of the offsets 2 to 14 (with the traffic \<open>t i\<close> and the clones \<open>cl i\<close> for
  \<open>dateOf i\<close>, the date \<open>i\<close> days before today), the result is that of exactly thirteen
  calls of \<open>generateFileContent\<close>, each on the file left by the call before it, for the
  records of the offsets 14, 13, ..., 2 in this order: the totals of the run, the traffic
  and the clones of the date, and the date (a call that throws ends the block with its
  exception).
\<close>

theorem backfill_threshold:
  "(\<exists>r. backfill api dateOf s c k fmt (Some (JNum n)) insightsFile = Some r)
   \<and> (14 \<le> n
      \<longrightarrow> backfill api dateOf s c k fmt (Some (JNum n)) insightsFile = Some (Inr insightsFile))
   \<and> (n < 14
      \<and> (\<forall>i \<in> {2..14}. getYesterdayTraffic api (dateOf i) = Inr (t i)
                       \<and> getYesterdayClones api (dateOf i) = Inr (cl i))
      \<longrightarrow> backfill api dateOf s c k fmt (Some (JNum n)) insightsFile
           = Some (upsertAll fmt
                     [(s, c, k, t 14, cl 14, dateOf 14), (s, c, k, t 13, cl 13, dateOf 13),
                      (s, c, k, t 12, cl 12, dateOf 12), (s, c, k, t 11, cl 11, dateOf 11),
                      (s, c, k, t 10, cl 10, dateOf 10), (s, c, k, t 9, cl 9, dateOf 9),
                      (s, c, k, t 8, cl 8, dateOf 8), (s, c, k, t 7, cl 7, dateOf 7),
                      (s, c, k, t 6, cl 6, dateOf 6), (s, c, k, t 5, cl 5, dateOf 5),
                      (s, c, k, t 4, cl 4, dateOf 4), (s, c, k, t 3, cl 3, dateOf 3),
                      (s, c, k, t 2, cl 2, dateOf 2)]
                     insightsFile))"
proof (intro conjI impI)
  show "\<exists>r. backfill api dateOf s c k fmt (Some (JNum n)) insightsFile = Some r"
    by (rule backfill_returns)
next
  assume "14 \<le> n"
  then show "backfill api dateOf s c k fmt (Some (JNum n)) insightsFile = Some (Inr insightsFile)"
    by (simp add: backfill_def)
next
  let ?offsets = "[14, 13, 12, 11, 10, 9, 8, 7, 6, 5, 4, 3, 2] :: int list"
  assume a: "n < 14
      \<and> (\<forall>i \<in> {2..14}. getYesterdayTraffic api (dateOf i) = Inr (t i)
                       \<and> getYesterdayClones api (dateOf i) = Inr (cl i))"
  then have "\<forall>i \<in> set ?offsets. getYesterdayTraffic api (dateOf i) = Inr (t i)
                       \<and> getYesterdayClones api (dateOf i) = Inr (cl i)"
    unfolding backfill_offsets_set by blast
  from backfillDays_upsertAll [OF this, of s c k fmt insightsFile]
  have "backfillDays api dateOf s c k fmt ?offsets insightsFile
     = upsertAll fmt (map (\<lambda>i. (s, c, k, t i, cl i, dateOf i)) ?offsets) insightsFile" .
  moreover from a have "backfill api dateOf s c k fmt (Some (JNum n)) insightsFile
     = Some (backfillDays api dateOf s c k fmt ?offsets insightsFile)"
    by (simp add: backfill_def backfillLoop_14)
  ultimately show "backfill api dateOf s c k fmt (Some (JNum n)) insightsFile
           = Some (upsertAll fmt
                     [(s, c, k, t 14, cl 14, dateOf 14), (s, c, k, t 13, cl 13, dateOf 13),
                      (s, c, k, t 12, cl 12, dateOf 12), (s, c, k, t 11, cl 11, dateOf 11),
                      (s, c, k, t 10, cl 10, dateOf 10), (s, c, k, t 9, cl 9, dateOf 9),
                      (s, c, k, t 8, cl 8, dateOf 8), (s, c, k, t 7, cl 7, dateOf 7),
                      (s, c, k, t 6, cl 6, dateOf 6), (s, c, k, t 5, cl 5, dateOf 5),
                      (s, c, k, t 4, cl 4, dateOf 4), (s, c, k, t 3, cl 3, dateOf 3),
                      (s, c, k, t 2, cl 2, dateOf 2)]
                     insightsFile)"
    by (simp only: list.map)
qed

theorem backfill_threshold_witness:
  "(14::int) \<le> 14
   \<and> backfill exampleInsights exampleCalendar 10 42 2 ''json'' (Some (JNum 14)) (Some ''[]'')
       = Some (Inr (Some ''[]''))
   \<and> (0::int) < 14
   \<and> map (\<lambda>i. getYesterdayTraffic exampleInsights (exampleCalendar i))
         [14, 13, 12, 11, 10, 9, 8, 7, 6, 5, 4, 3, 2]
       = map (\<lambda>i. Inr (if i = 3 then \<lparr>count = 3, uniques = 2\<rparr>
                       else \<lparr>count = 0, uniques = 0\<rparr>))
           [14, 13, 12, 11, 10, 9, 8, 7, 6, 5, 4, 3, (2::int)]
   \<and> map (\<lambda>i. getYesterdayClones exampleInsights (exampleCalendar i))
         [14, 13, 12, 11, 10, 9, 8, 7, 6, 5, 4, 3, 2]
       = map (\<lambda>i. Inr \<lparr>count = 0, uniques = 0\<rparr>)
           [14, 13, 12, 11, 10, 9, 8, 7, 6, 5, 4, 3, (2::int)]
   \<and> backfill exampleInsights exampleCalendar 10 42 2 ''json'' (Some (JNum 0)) (Some ''[]'')
       = Some (upsertAll ''json''
           (map (\<lambda>d. (10, 42, 2,
                       if d = ''2024-01-12'' then \<lparr>count = 3, uniques = 2\<rparr>
                       else \<lparr>count = 0, uniques = 0\<rparr>,
                       \<lparr>count = 0, uniques = 0\<rparr>, d))
              [''2024-01-01'', ''2024-01-02'', ''2024-01-03'', ''2024-01-04'', ''2024-01-05'',
               ''2024-01-06'', ''2024-01-07'', ''2024-01-08'', ''2024-01-09'', ''2024-01-10'',
               ''2024-01-11'', ''2024-01-12'', ''2024-01-13''])
           (Some ''[]''))
   \<and> upsertAll ''json''
        (map (\<lambda>d. (10, 42, 2,
                    if d = ''2024-01-12'' then \<lparr>count = 3, uniques = 2\<rparr>
                    else \<lparr>count = 0, uniques = 0\<rparr>,
                    \<lparr>count = 0, uniques = 0\<rparr>, d))
           [''2024-01-01'', ''2024-01-02'', ''2024-01-03'', ''2024-01-04'', ''2024-01-05'',
            ''2024-01-06'', ''2024-01-07'', ''2024-01-08'', ''2024-01-09'', ''2024-01-10'',
            ''2024-01-11'', ''2024-01-12'', ''2024-01-13''])
        (Some ''[]'')
       = Inr (Some (JSON_stringify (JArr
           (map (\<lambda>d. JObj (newEntry 10 42 2
                         (if d = ''2024-01-12'' then \<lparr>count = 3, uniques = 2\<rparr>
                          else \<lparr>count = 0, uniques = 0\<rparr>)
                         \<lparr>count = 0, uniques = 0\<rparr> d))
              [''2024-01-01'', ''2024-01-02'', ''2024-01-03'', ''2024-01-04'', ''2024-01-05'',
               ''2024-01-06'', ''2024-01-07'', ''2024-01-08'', ''2024-01-09'', ''2024-01-10'',
               ''2024-01-11'', ''2024-01-12'', ''2024-01-13'']))))"
proof -
  let ?t = "\<lambda>i. if exampleCalendar i = ''2024-01-12'' then \<lparr>count = 3, uniques = 2\<rparr>
                 else \<lparr>count = 0::nat, uniques = 0::nat\<rparr>"
  let ?cl = "\<lambda>i::int. \<lparr>count = 0::nat, uniques = 0::nat\<rparr>"
  let ?dates = "[''2024-01-01'', ''2024-01-02'', ''2024-01-03'', ''2024-01-04'', ''2024-01-05'',
               ''2024-01-06'', ''2024-01-07'', ''2024-01-08'', ''2024-01-09'', ''2024-01-10'',
               ''2024-01-11'', ''2024-01-12'', ''2024-01-13'']"
  let ?rs = "map (\<lambda>d. (10::nat, 42::nat, 2::nat,
                       if d = ''2024-01-12'' then \<lparr>count = 3, uniques = 2\<rparr>
                       else \<lparr>count = 0::nat, uniques = 0::nat\<rparr>,
                       \<lparr>count = 0::nat, uniques = 0::nat\<rparr>, d)) ?dates"
  have empty: "JSON_stringify (JArr []) = ''[]''" by code_simp
  have fetch: "\<forall>i \<in> {2..14}.
         getYesterdayTraffic exampleInsights (exampleCalendar i) = Inr (?t i)
         \<and> getYesterdayClones exampleInsights (exampleCalendar i) = Inr (?cl i)"
    by (simp add: example_traffic example_clones)
  have full: "backfill exampleInsights exampleCalendar 10 42 2 ''json'' (Some (JNum 14))
      (Some ''[]'') = Some (Inr (Some ''[]''))"
    using backfill_threshold [where api = exampleInsights and dateOf = exampleCalendar
        and s = 10 and c = 42 and k = 2 and fmt = "''json''" and n = 14
        and insightsFile = "Some ''[]''"]
    by simp
  have turns: "backfill exampleInsights exampleCalendar 10 42 2 ''json'' (Some (JNum 0))
      (Some ''[]'') = Some (upsertAll ''json''
           (map (\<lambda>i. (10, 42, 2, ?t i, ?cl i, exampleCalendar i))
              [14, 13, 12, 11, 10, 9, 8, 7, 6, 5, 4, 3, 2]) (Some ''[]''))"
    using backfill_threshold [where api = exampleInsights and dateOf = exampleCalendar
        and s = 10 and c = 42 and k = 2 and fmt = "''json''" and n = 0
        and insightsFile = "Some ''[]''" and t = ?t and cl = ?cl] fetch
    by (simp only: list.map) simp
  have recs: "map (\<lambda>i. (10::nat, 42::nat, 2::nat, ?t i, ?cl i, exampleCalendar i))
              [14, 13, 12, 11, 10, 9, 8, 7, 6, 5, 4, 3, 2] = ?rs"
    by (simp add: exampleCalendar_def intToString_def natToString.simps digitChar_def)
  have result: "backfill exampleInsights exampleCalendar 10 42 2 ''json'' (Some (JNum 0))
      (Some ''[]'') = Some (Inr (Some (JSON_stringify (JArr
           (map (\<lambda>d. JObj (newEntry 10 42 2
                         (if d = ''2024-01-12'' then \<lparr>count = 3, uniques = 2\<rparr>
                          else \<lparr>count = 0, uniques = 0\<rparr>)
                         \<lparr>count = 0, uniques = 0\<rparr> d)) ?dates)))))"
    using example_backfill_json unfolding example_calendar empty .
  from turns have turns': "backfill exampleInsights exampleCalendar 10 42 2 ''json''
      (Some (JNum 0)) (Some ''[]'') = Some (upsertAll ''json'' ?rs (Some ''[]''))"
    unfolding recs .
  with result have "upsertAll ''json'' ?rs (Some ''[]'') = Inr (Some (JSON_stringify (JArr
           (map (\<lambda>d. JObj (newEntry 10 42 2
                         (if d = ''2024-01-12'' then \<lparr>count = 3, uniques = 2\<rparr>
                          else \<lparr>count = 0, uniques = 0\<rparr>)
                         \<lparr>count = 0, uniques = 0\<rparr> d)) ?dates))))"
    by (simp only: option.inject)
  moreover have "map (\<lambda>i. getYesterdayTraffic exampleInsights (exampleCalendar i))
         [14, 13, 12, 11, 10, 9, 8, 7, 6, 5, 4, 3, 2]
       = map (\<lambda>i. Inr (if i = 3 then \<lparr>count = 3, uniques = 2\<rparr>
                       else \<lparr>count = 0, uniques = 0\<rparr>))
           [14, 13, 12, 11, 10, 9, 8, 7, 6, 5, 4, 3, (2::int)]"
    by (simp add: example_traffic exampleCalendar_def intToString_def natToString.simps
        digitChar_def)
  moreover have "map (\<lambda>i. getYesterdayClones exampleInsights (exampleCalendar i))
         [14, 13, 12, 11, 10, 9, 8, 7, 6, 5, 4, 3, 2]
       = map (\<lambda>i. Inr \<lparr>count = 0, uniques = 0\<rparr>)
           [14, 13, 12, 11, 10, 9, 8, 7, 6, 5, 4, 3, (2::int)]"
    by (simp add: example_clones)
  ultimately show ?thesis using full turns' by (intro conjI) simp_all
qed

text \<open>
  Claim C10 (backfilled records reuse the totals of the start of the run). First, for a
  run whose statistics request gives the totals \<open>s\<close>, \<open>c\<close>, \<open>k\<close>, whose branch and file are
  obtained, whose loaded count is below 14 and whose metrics API answers for the dates
  of the offsets 2 to 14: the run is the thirteen calls of \<open>generateFileContent\<close> that
  start from the loaded file, every one of them with these same \<open>s\<close>, \<open>c\<close>, \<open>k\<close> and with the
  traffic and clones fetched for its own date, followed by the rest of the run on the
  file they leave (or by the failure of one of the calls). Second, in the JSON format,
  when the backfill block has produced a file from an array: the file is an array, each
  of its entries is an entry of the loaded array or, for an offset from 2 to 14, the
  object with the date of the offset, the members \<open>stargazers\<close>, \<open>commits\<close>, \<open>contributors\<close>
  equal to \<open>s\<close>, \<open>c\<close>, \<open>k\<close>, and the traffic and clones of that date; and every offset from 2
  to 14 has such an entry in the file. Third, the same for the lines of a CSV file, for
  dates of the form that \<open>toISOString\<close> produces. The totals come from \<open>getRepoStats\<close>,
  which takes no date.
\<close>

theorem backfill_reuses_totals:
  "(getRepoStats (octokitInsights w) = Inr (s, c, k)
      \<and> ensureBranchExists (storageRepo w) (branchOf inp) = Inr st
      \<and> getInsightsFile st (input_owner inp) (input_repository inp) (branchOf inp)
           (rootDirOf inp) (formatOf inp) = Inr (loaded, loadedCount)
      \<and> lessThan14 loadedCount
      \<and> (\<forall>i \<in> {2..14}.
            getYesterdayTraffic (octokitInsights w) (daysAgo w i) = Inr (t i)
            \<and> getYesterdayClones (octokitInsights w) (daysAgo w i) = Inr (cl i))
      \<longrightarrow> run inp w =
           (case upsertAll (formatOf inp)
                   [(s, c, k, t 14, cl 14, daysAgo w 14), (s, c, k, t 13, cl 13, daysAgo w 13),
                    (s, c, k, t 12, cl 12, daysAgo w 12), (s, c, k, t 11, cl 11, daysAgo w 11),
                    (s, c, k, t 10, cl 10, daysAgo w 10), (s, c, k, t 9, cl 9, daysAgo w 9),
                    (s, c, k, t 8, cl 8, daysAgo w 8), (s, c, k, t 7, cl 7, daysAgo w 7),
                    (s, c, k, t 6, cl 6, daysAgo w 6), (s, c, k, t 5, cl 5, daysAgo w 5),
                    (s, c, k, t 4, cl 4, daysAgo w 4), (s, c, k, t 3, cl 3, daysAgo w 3),
                    (s, c, k, t 2, cl 2, daysAgo w 2)]
                   (Some loaded) of
              Inl err \<Rightarrow> Some (Inl err, st)
            | Inr insightsFile' \<Rightarrow>
                Some (publishYesterday inp w st (branchOf inp) (rootDirOf inp) (formatOf inp)
                        s c k insightsFile')))
   \<and> (JSON_parse content = Inr (JArr es) \<and> lessThan14 insightsCount
      \<and> backfill api dateOf s c k ''json'' insightsCount (Some content)
           = Some (Inr (Some content'))
      \<longrightarrow> (\<exists>es'. JSON_parse content' = Inr (JArr es')
            \<and> (\<forall>e \<in> set es'. e \<in> set es
                  \<or> (\<exists>i \<in> {2..14}. backfilledEntry api dateOf s c k i e))
            \<and> (\<forall>i \<in> {2..14}. \<exists>e \<in> set es'. backfilledEntry api dateOf s c k i e)))
   \<and> ((\<forall>i \<in> {2..14}. isoDate (dateOf i)) \<and> lessThan14 insightsCount
      \<and> backfill api dateOf s c k ''csv'' insightsCount (Some content)
           = Some (Inr (Some content'))
      \<longrightarrow> (\<forall>l \<in> set (csvLinesOf content'). l \<in> set (csvLinesOf content)
               \<or> (\<exists>i \<in> {2..14}. backfilledLine api dateOf s c k i l))
          \<and> (\<forall>i \<in> {2..14}. \<exists>l \<in> set (csvLinesOf content').
                 backfilledLine api dateOf s c k i l))"
proof (intro conjI impI)
  assume "getRepoStats (octokitInsights w) = Inr (s, c, k)
      \<and> ensureBranchExists (storageRepo w) (branchOf inp) = Inr st
      \<and> getInsightsFile st (input_owner inp) (input_repository inp) (branchOf inp)
           (rootDirOf inp) (formatOf inp) = Inr (loaded, loadedCount)
      \<and> lessThan14 loadedCount
      \<and> (\<forall>i \<in> {2..14}.
            getYesterdayTraffic (octokitInsights w) (daysAgo w i) = Inr (t i)
            \<and> getYesterdayClones (octokitInsights w) (daysAgo w i) = Inr (cl i))"
  then have "run inp w =
    (case upsertAll (formatOf inp)
            (map (\<lambda>i. (s, c, k, t i, cl i, daysAgo w i))
               [14, 13, 12, 11, 10, 9, 8, 7, 6, 5, 4, 3, 2])
            (Some loaded) of
       Inl err \<Rightarrow> Some (Inl err, st)
     | Inr insightsFile' \<Rightarrow>
         Some (publishYesterday inp w st (branchOf inp) (rootDirOf inp) (formatOf inp) s c k
                 insightsFile'))"
    using run_backfill_records [of w s c k inp st loaded loadedCount t cl] by blast
  then show "run inp w =
           (case upsertAll (formatOf inp)
                   [(s, c, k, t 14, cl 14, daysAgo w 14), (s, c, k, t 13, cl 13, daysAgo w 13),
                    (s, c, k, t 12, cl 12, daysAgo w 12), (s, c, k, t 11, cl 11, daysAgo w 11),
                    (s, c, k, t 10, cl 10, daysAgo w 10), (s, c, k, t 9, cl 9, daysAgo w 9),
                    (s, c, k, t 8, cl 8, daysAgo w 8), (s, c, k, t 7, cl 7, daysAgo w 7),
                    (s, c, k, t 6, cl 6, daysAgo w 6), (s, c, k, t 5, cl 5, daysAgo w 5),
                    (s, c, k, t 4, cl 4, daysAgo w 4), (s, c, k, t 3, cl 3, daysAgo w 3),
                    (s, c, k, t 2, cl 2, daysAgo w 2)]
                   (Some loaded) of
              Inl err \<Rightarrow> Some (Inl err, st)
            | Inr insightsFile' \<Rightarrow>
                Some (publishYesterday inp w st (branchOf inp) (rootDirOf inp) (formatOf inp)
                        s c k insightsFile'))"
    by (simp only: list.map)
next
  assume "JSON_parse content = Inr (JArr es) \<and> lessThan14 insightsCount
      \<and> backfill api dateOf s c k ''json'' insightsCount (Some content)
           = Some (Inr (Some content'))"
  then show "\<exists>es'. JSON_parse content' = Inr (JArr es')
            \<and> (\<forall>e \<in> set es'. e \<in> set es
                  \<or> (\<exists>i \<in> {2..14}. backfilledEntry api dateOf s c k i e))
            \<and> (\<forall>i \<in> {2..14}. \<exists>e \<in> set es'. backfilledEntry api dateOf s c k i e)"
    using backfill_json_entries [of content es insightsCount api dateOf s c k content']
    by blast
next
  assume a: "(\<forall>i \<in> {2..14}. isoDate (dateOf i)) \<and> lessThan14 insightsCount
      \<and> backfill api dateOf s c k ''csv'' insightsCount (Some content)
           = Some (Inr (Some content'))"
  note lines = backfill_csv_lines [of dateOf insightsCount api s c k content content']
  from a lines show "\<forall>l \<in> set (csvLinesOf content'). l \<in> set (csvLinesOf content)
               \<or> (\<exists>i \<in> {2..14}. backfilledLine api dateOf s c k i l)"
    unfolding backfilledLine_iff by blast
  from a lines show "\<forall>i \<in> {2..14}. \<exists>l \<in> set (csvLinesOf content').
                 backfilledLine api dateOf s c k i l"
    unfolding backfilledLine_iff by blast
qed

theorem backfill_reuses_totals_witness:
  "getRepoStats (octokitInsights exampleWorld) = Inr (10, 42, 2)
   \<and> ensureBranchExists (storageRepo exampleWorld)
         (branchOf (exampleInputs\<lparr>input_format := []\<rparr>))
       = Inr (exampleStorage\<lparr>refs := [(''refs/heads/main'', 1),
                                        (''refs/heads/repository-insights'', 1)]\<rparr>)
   \<and> lessThan14 (Some (JNum 0))
   \<and> run (exampleInputs\<lparr>input_format := []\<rparr>) exampleWorld
       = Some (publishYesterday (exampleInputs\<lparr>input_format := []\<rparr>) exampleWorld
           (exampleStorage\<lparr>refs := [(''refs/heads/main'', 1),
                                    (''refs/heads/repository-insights'', 1)]\<rparr>)
           ''repository-insights'' ''.insights'' ''json'' 10 42 2
           (Some (JSON_stringify (JArr
              (map (\<lambda>d. JObj [(''date'', JStr d), (''stargazers'', JNum 10),
                               (''commits'', JNum 42), (''contributors'', JNum 2),
                               (''traffic_views'', JNum (if d = ''2024-01-12'' then 3 else 0)),
                               (''traffic_uniques'', JNum (if d = ''2024-01-12'' then 2 else 0)),
                               (''clones_count'', JNum 0), (''clones_uniques'', JNum 0)])
                 [''2024-01-01'', ''2024-01-02'', ''2024-01-03'', ''2024-01-04'',
                  ''2024-01-05'', ''2024-01-06'', ''2024-01-07'', ''2024-01-08'',
                  ''2024-01-09'', ''2024-01-10'', ''2024-01-11'', ''2024-01-12'',
                  ''2024-01-13''])))))
   \<and> JSON_parse ''[]'' = Inr (JArr [])
   \<and> (\<exists>es'. JSON_parse (JSON_stringify (JArr
              (map (\<lambda>d. JObj [(''date'', JStr d), (''stargazers'', JNum 10),
                               (''commits'', JNum 42), (''contributors'', JNum 2),
                               (''traffic_views'', JNum (if d = ''2024-01-12'' then 3 else 0)),
                               (''traffic_uniques'', JNum (if d = ''2024-01-12'' then 2 else 0)),
                               (''clones_count'', JNum 0), (''clones_uniques'', JNum 0)])
                 [''2024-01-01'', ''2024-01-02'', ''2024-01-03'', ''2024-01-04'',
                  ''2024-01-05'', ''2024-01-06'', ''2024-01-07'', ''2024-01-08'',
                  ''2024-01-09'', ''2024-01-10'', ''2024-01-11'', ''2024-01-12'',
                  ''2024-01-13''])))
          = Inr (JArr es')
        \<and> JObj [(''date'', JStr ''2024-01-12''), (''stargazers'', JNum 10),
                 (''commits'', JNum 42), (''contributors'', JNum 2),
                 (''traffic_views'', JNum 3), (''traffic_uniques'', JNum 2),
                 (''clones_count'', JNum 0), (''clones_uniques'', JNum 0)] \<in> set es'
        \<and> JObj [(''date'', JStr ''2024-01-01''), (''stargazers'', JNum 10),
                 (''commits'', JNum 42), (''contributors'', JNum 2),
                 (''traffic_views'', JNum 0), (''traffic_uniques'', JNum 0),
                 (''clones_count'', JNum 0), (''clones_uniques'', JNum 0)] \<in> set es')
   \<and> backfill exampleInsights exampleCalendar 10 42 2 ''csv'' (Some (JNum 0))
         (Some (csvHeaderLine @ [LF]))
       = Some (Inr (Some (join [LF]
           [csvHeaderLine,
            ''2024-01-01,10,42,2,0,0,0,0'', ''2024-01-02,10,42,2,0,0,0,0'',
            ''2024-01-03,10,42,2,0,0,0,0'', ''2024-01-04,10,42,2,0,0,0,0'',
            ''2024-01-05,10,42,2,0,0,0,0'', ''2024-01-06,10,42,2,0,0,0,0'',
            ''2024-01-07,10,42,2,0,0,0,0'', ''2024-01-08,10,42,2,0,0,0,0'',
            ''2024-01-09,10,42,2,0,0,0,0'', ''2024-01-10,10,42,2,0,0,0,0'',
            ''2024-01-11,10,42,2,0,0,0,0'', ''2024-01-12,10,42,2,3,2,0,0'',
            ''2024-01-13,10,42,2,0,0,0,0''])))
   \<and> ''2024-01-12,10,42,2,3,2,0,0'' \<in> set (csvLinesOf (join [LF]
           [csvHeaderLine,
            ''2024-01-01,10,42,2,0,0,0,0'', ''2024-01-02,10,42,2,0,0,0,0'',
            ''2024-01-03,10,42,2,0,0,0,0'', ''2024-01-04,10,42,2,0,0,0,0'',
            ''2024-01-05,10,42,2,0,0,0,0'', ''2024-01-06,10,42,2,0,0,0,0'',
            ''2024-01-07,10,42,2,0,0,0,0'', ''2024-01-08,10,42,2,0,0,0,0'',
            ''2024-01-09,10,42,2,0,0,0,0'', ''2024-01-10,10,42,2,0,0,0,0'',
            ''2024-01-11,10,42,2,0,0,0,0'', ''2024-01-12,10,42,2,3,2,0,0'',
            ''2024-01-13,10,42,2,0,0,0,0'']))"
proof -
  let ?inp = "exampleInputs\<lparr>input_format := []\<rparr>"
  let ?st = "exampleStorage\<lparr>refs := [(''refs/heads/main'', 1),
                                      (''refs/heads/repository-insights'', 1)]\<rparr>"
  let ?t = "\<lambda>i. if exampleCalendar i = ''2024-01-12'' then \<lparr>count = 3, uniques = 2\<rparr>
                 else \<lparr>count = 0::nat, uniques = 0::nat\<rparr>"
  let ?cl = "\<lambda>i::int. \<lparr>count = 0::nat, uniques = 0::nat\<rparr>"
  let ?dates = "[''2024-01-01'', ''2024-01-02'', ''2024-01-03'', ''2024-01-04'',
                  ''2024-01-05'', ''2024-01-06'', ''2024-01-07'', ''2024-01-08'',
                  ''2024-01-09'', ''2024-01-10'', ''2024-01-11'', ''2024-01-12'',
                  ''2024-01-13'']"
  let ?J = "JSON_stringify (JArr
              (map (\<lambda>d. JObj [(''date'', JStr d), (''stargazers'', JNum 10),
                               (''commits'', JNum 42), (''contributors'', JNum 2),
                               (''traffic_views'', JNum (if d = ''2024-01-12'' then 3 else 0)),
                               (''traffic_uniques'', JNum (if d = ''2024-01-12'' then 2 else 0)),
                               (''clones_count'', JNum 0), (''clones_uniques'', JNum 0)])
                 ?dates))"
  let ?C = "join [LF]
           [csvHeaderLine,
            ''2024-01-01,10,42,2,0,0,0,0'', ''2024-01-02,10,42,2,0,0,0,0'',
            ''2024-01-03,10,42,2,0,0,0,0'', ''2024-01-04,10,42,2,0,0,0,0'',
            ''2024-01-05,10,42,2,0,0,0,0'', ''2024-01-06,10,42,2,0,0,0,0'',
            ''2024-01-07,10,42,2,0,0,0,0'', ''2024-01-08,10,42,2,0,0,0,0'',
            ''2024-01-09,10,42,2,0,0,0,0'', ''2024-01-10,10,42,2,0,0,0,0'',
            ''2024-01-11,10,42,2,0,0,0,0'', ''2024-01-12,10,42,2,3,2,0,0'',
            ''2024-01-13,10,42,2,0,0,0,0'']"
  let ?e12 = "JObj [(''date'', JStr ''2024-01-12''), (''stargazers'', JNum 10),
                 (''commits'', JNum 42), (''contributors'', JNum 2),
                 (''traffic_views'', JNum 3), (''traffic_uniques'', JNum 2),
                 (''clones_count'', JNum 0), (''clones_uniques'', JNum 0)]"
  let ?e01 = "JObj [(''date'', JStr ''2024-01-01''), (''stargazers'', JNum 10),
                 (''commits'', JNum 42), (''contributors'', JNum 2),
                 (''traffic_views'', JNum 0), (''traffic_uniques'', JNum 0),
                 (''clones_count'', JNum 0), (''clones_uniques'', JNum 0)]"
  note inst = backfill_reuses_totals [where w = exampleWorld and inp = ?inp and s = 10
      and c = 42 and k = 2 and st = ?st and loaded = "''[]''" and loadedCount = "Some (JNum 0)"
      and t = ?t and cl = ?cl and api = exampleInsights and dateOf = exampleCalendar
      and insightsCount = "Some (JNum 0)"]
  have stats: "getRepoStats (octokitInsights exampleWorld) = Inr (10, 42, 2)"
    by (simp add: exampleWorld_def getRepoStats_example)
  have ensured: "ensureBranchExists (storageRepo exampleWorld) (branchOf ?inp) = Inr ?st"
    by (simp add: exampleWorld_def example_defaults ensureBranchExists_example)
  have loaded: "getInsightsFile ?st (input_owner ?inp) (input_repository ?inp) (branchOf ?inp)
      (rootDirOf ?inp) (formatOf ?inp) = Inr (''[]'', Some (JNum 0))"
    by (simp only: example_defaults example_ensured_file)
  have few: "lessThan14 (Some (JNum 0))" by simp
  have fetch: "\<forall>i \<in> {2..14}.
      getYesterdayTraffic (octokitInsights exampleWorld) (daysAgo exampleWorld i) = Inr (?t i)
      \<and> getYesterdayClones (octokitInsights exampleWorld) (daysAgo exampleWorld i)
          = Inr (?cl i)"
    by (simp add: exampleWorld_def example_traffic example_clones)
  have turns: "upsertAll ''json''
      (map (\<lambda>i. (10, 42, 2, ?t i, ?cl i, exampleCalendar i))
         [14, 13, 12, 11, 10, 9, 8, 7, 6, 5, 4, 3, 2]) (Some ''[]'') = Inr (Some ?J)"
    using example_backfill_json_entries
    unfolding example_backfill_upsertAll example_records by (simp only: option.inject)
  from inst [THEN conjunct1, rule_format, OF conjI [OF stats conjI [OF ensured
      conjI [OF loaded conjI [OF few fetch]]]]]
  have ran: "run ?inp exampleWorld
      = Some (publishYesterday ?inp exampleWorld ?st ''repository-insights'' ''.insights''
          ''json'' 10 42 2 (Some ?J))"
    using turns by (simp add: example_defaults exampleWorld_def)
  have parsed: "JSON_parse ''[]'' = Inr (JArr [])" by code_simp
  from inst [where content = "''[]''" and es = "[]" and content' = ?J,
      THEN conjunct2, THEN conjunct1, rule_format,
      OF conjI [OF parsed conjI [OF few example_backfill_json_entries]]]
  obtain es' where es': "JSON_parse ?J = Inr (JArr es')"
    and written: "\<forall>i \<in> {2..14}. \<exists>e \<in> set es'.
      backfilledEntry exampleInsights exampleCalendar 10 42 2 i e"
    by blast
  have "(3::int) \<in> {2..14}" "(14::int) \<in> {2..14}" by simp_all
  with written obtain e3 e14 where
    e3: "e3 \<in> set es'" "backfilledEntry exampleInsights exampleCalendar 10 42 2 3 e3"
    and e14: "e14 \<in> set es'" "backfilledEntry exampleInsights exampleCalendar 10 42 2 14 e14"
    by blast
  from e3(2) have "e3 = ?e12"
    by (simp add: backfilledEntry_def example_traffic example_clones exampleCalendar_def
        intToString_def natToString.simps digitChar_def)
  moreover from e14(2) have "e14 = ?e01"
    by (simp add: backfilledEntry_def example_traffic example_clones exampleCalendar_def
        intToString_def natToString.simps digitChar_def)
  ultimately have json: "\<exists>es'. JSON_parse ?J = Inr (JArr es') \<and> ?e12 \<in> set es'
      \<and> ?e01 \<in> set es'"
    using es' e3(1) e14(1) by blast
  from inst [where content = "csvHeaderLine @ [LF]" and content' = ?C,
      THEN conjunct2, THEN conjunct2, rule_format,
      OF conjI [OF example_dates_iso conjI [OF few example_backfill_csv]]]
  have "\<forall>i \<in> {2..14}. \<exists>l \<in> set (csvLinesOf ?C).
      backfilledLine exampleInsights exampleCalendar 10 42 2 i l"
    by blast
  with \<open>(3::int) \<in> {2..14}\<close> obtain l where
    l: "l \<in> set (csvLinesOf ?C)" "backfilledLine exampleInsights exampleCalendar 10 42 2 3 l"
    by blast
  from l(2) have "l = ''2024-01-12,10,42,2,3,2,0,0''"
    by (simp add: backfilledLine_def example_traffic example_clones exampleCalendar_def
        intToString_def natToString.simps digitChar_def)
  with l(1) have csv: "''2024-01-12,10,42,2,3,2,0,0'' \<in> set (csvLinesOf ?C)" by simp
  from stats ensured few ran parsed json example_backfill_csv csv show ?thesis
    by (intro conjI)
qed

end
